theory Spec2Isabelle
  imports Main
begin

section \<open>Data model\<close>

text \<open>
  The exporter works on pandas tables. The local export is read with \<open>dtype=str\<close>, and
  the identifier column of the metadata table is cast with \<open>astype(str)\<close>, so a cell is
  either a string or the missing value (NaN / \<open>pd.NA\<close>), written \<open>None\<close> here.
  A table is its list of column labels and its rows in order; a row that is shorter than
  the header reads as missing in the remaining columns, as the CSV reader pads it.
\<close>

type_synonym cell = "string option"

record dataframe =
  columns :: "string list"
  rows :: "cell list list"

text \<open>
  What the program can raise. \<open>SystemExit\<close> carries the message given to it; the other
  constructors are the exception classes that appear in the two scripts and in the
  library calls they make.
\<close>

datatype error =
    KeyError string
  | SystemExit string
  | RuntimeError string
  | HTTPError nat
  | JSONDecodeError
  | ParserError
  | MergeError
  | ValueError

text \<open>
  Python's class hierarchy: \<open>SystemExit\<close> derives from \<open>BaseException\<close> and not from
  \<open>Exception\<close>; every other class above derives from \<open>Exception\<close>.
\<close>

fun is_exception :: "error \<Rightarrow> bool" where
  "is_exception (SystemExit msg) = False"
| "is_exception e = True"

text \<open>
  The status with which the interpreter ends when the error reaches the top level:
  \<open>SystemExit\<close> with a string argument prints the string and exits with 1; an uncaught
  exception prints its traceback and exits with 1.
\<close>

fun exit_status :: "error \<Rightarrow> nat" where
  "exit_status (SystemExit msg) = 1"
| "exit_status e = 1"

fun index_of :: "'a \<Rightarrow> 'a list \<Rightarrow> nat" where
  "index_of x [] = 0"
| "index_of x (y # ys) = (if x = y then 0 else Suc (index_of x ys))"

definition cell_at :: "cell list \<Rightarrow> nat \<Rightarrow> cell" where
  "cell_at r i = (if i < length r then r ! i else None)"

definition fit :: "nat \<Rightarrow> cell list \<Rightarrow> cell list" where
  "fit n r = take n r @ replicate (n - length r) None"

text \<open>\<open>df[c]\<close>: the column labelled \<open>c\<close>, or \<open>KeyError\<close>.\<close>

definition get_column :: "dataframe \<Rightarrow> string \<Rightarrow> error + cell list" where
  "get_column df c =
     (if c \<in> set (columns df)
      then Inr (map (\<lambda>r. cell_at r (index_of c (columns df))) (rows df))
      else Inl (KeyError c))"

text \<open>
  \<open>df[c] = vals\<close>: an existing column is overwritten in place, a new label is appended
  as the last column. \<open>vals\<close> has one cell per row (it comes from \<open>apply\<close> on a column of
  the same table).
\<close>

definition set_column :: "dataframe \<Rightarrow> string \<Rightarrow> cell list \<Rightarrow> dataframe" where
  "set_column df c vals =
     (let n = length (columns df) in
      if c \<in> set (columns df)
      then df\<lparr>rows := map (\<lambda>(r, v). (fit n r)[index_of c (columns df) := v]) (zip (rows df) vals)\<rparr>
      else df\<lparr>columns := columns df @ [c],
              rows := map (\<lambda>(r, v). fit n r @ [v]) (zip (rows df) vals)\<rparr>)"

text \<open>\<open>str(x)\<close> of a cell, as an f-string or \<open>astype(str)\<close> renders it: NaN prints as \<open>nan\<close>.\<close>

fun astype_str :: "cell \<Rightarrow> string" where
  "astype_str None = ''nan''"
| "astype_str (Some s) = s"

section \<open>Reconciler: identifiers and URLs\<close>

definition dropna :: "cell list \<Rightarrow> cell list" where
  "dropna cs = filter (\<lambda>c. c \<noteq> None) cs"

text \<open>\<open>Series.unique()\<close>: the distinct values in order of first appearance.\<close>

fun unique_from :: "'a list \<Rightarrow> 'a list \<Rightarrow> 'a list" where
  "unique_from seen [] = []"
| "unique_from seen (x # xs) =
     (if x \<in> set seen then unique_from seen xs else x # unique_from (x # seen) xs)"

definition unique :: "'a list \<Rightarrow> 'a list" where
  "unique xs = unique_from [] xs"

text \<open>
  \<^verbatim>\<open>
  docids = dataframe[docid_col].dropna().astype(str)
  docids = docids[docids.str.len() > 0]
  return set(docids.unique().tolist())
  \<close>
\<close>

definition extract_docids :: "dataframe \<Rightarrow> string \<Rightarrow> error + string set" where
  "extract_docids df docid_col =
     (case get_column df docid_col of
        Inl e \<Rightarrow> Inl e
      | Inr col \<Rightarrow>
          (let docids = map astype_str (dropna col);
               docids = filter (\<lambda>s. 0 < length s) docids
           in Inr (set (unique docids))))"

text \<open>
  \<^verbatim>\<open>
  dataframe["FileUrl"] = dataframe["ContentDocumentId"].apply(
      lambda content_id: f"{instance_url}/lightning/r/ContentDocument/{content_id}/view")
  return dataframe
  \<close>
\<close>

definition file_url :: "string \<Rightarrow> string \<Rightarrow> string" where
  "file_url instance_url content_id =
     instance_url @ ''/lightning/r/ContentDocument/'' @ content_id @ ''/view''"

definition add_file_urls :: "dataframe \<Rightarrow> string \<Rightarrow> error + dataframe" where
  "add_file_urls df instance_url =
     (case get_column df ''ContentDocumentId'' of
        Inl e \<Rightarrow> Inl e
      | Inr ids \<Rightarrow>
          Inr (set_column df ''FileUrl''
                 (map (\<lambda>content_id. Some (file_url instance_url (astype_str content_id))) ids)))"

section \<open>Local dataset loader\<close>

text \<open>
  \<open>str.strip()\<close> removes the leading and trailing whitespace characters; among the
  one-byte characters these are tab, line feed, vertical tab, form feed, carriage return,
  the four separators \<open>0x1C\<close> to \<open>0x1F\<close>, space, \<open>0x85\<close> and \<open>0xA0\<close>.
\<close>

definition is_space :: "char \<Rightarrow> bool" where
  "is_space c \<longleftrightarrow>
     c \<in> set [CHR 0x09, CHR 0x0A, CHR 0x0B, CHR 0x0C, CHR 0x0D,
               CHR 0x1C, CHR 0x1D, CHR 0x1E, CHR 0x1F, CHR 0x20, CHR 0x85, CHR 0xA0]"

definition strip :: "string \<Rightarrow> string" where
  "strip s = rev (dropWhile is_space (rev (dropWhile is_space s)))"

text \<open>
  \<open>dataframe[keep_cols]\<close>: the listed columns in the listed order; a label that the
  table does not have raises \<open>KeyError\<close>.
\<close>

definition select_columns :: "dataframe \<Rightarrow> string list \<Rightarrow> error + dataframe" where
  "select_columns df keep_cols =
     (case filter (\<lambda>c. c \<notin> set (columns df)) keep_cols of
        c # _ \<Rightarrow> Inl (KeyError c)
      | [] \<Rightarrow>
          Inr \<lparr>columns = keep_cols,
               rows = map (\<lambda>r. map (\<lambda>c. cell_at r (index_of c (columns df))) keep_cols)
                        (rows df)\<rparr>)"

text \<open>
  \<^verbatim>\<open>
  dataframe = pd.read_csv(path, dtype=str, encoding=encoding, low_memory=False)
  if docid_col not in dataframe.columns:
      raise SystemExit(f"Column not found in SiteTracker CSV: {docid_col}")
  if not selected_columns:
      return dataframe
  keep_cols = [col.strip() for col in selected_columns
               if col and col.strip() in dataframe.columns]
  if docid_col not in keep_cols:
      keep_cols.append(docid_col)
  return dataframe[keep_cols]
  \<close>
  The first argument is what \<open>pd.read_csv\<close> gives for the path: the parsed table, or the
  error it raises on a file it cannot read. \<open>selected_columns\<close> is \<open>None\<close> or a list.
\<close>

definition read_sitetracker_csv ::
  "error + dataframe \<Rightarrow> string \<Rightarrow> string list option \<Rightarrow> error + dataframe" where
  "read_sitetracker_csv csv docid_col selected_columns =
     (case csv of
        Inl e \<Rightarrow> Inl e
      | Inr dataframe \<Rightarrow>
          if docid_col \<notin> set (columns dataframe)
          then Inl (SystemExit (''Column not found in SiteTracker CSV: '' @ docid_col))
          else (case selected_columns of
                  None \<Rightarrow> Inr dataframe
                | Some [] \<Rightarrow> Inr dataframe
                | Some selected \<Rightarrow>
                    (let keep_cols = map strip
                           (filter (\<lambda>col. col \<noteq> [] \<and> strip col \<in> set (columns dataframe))
                              selected);
                         keep_cols = (if docid_col \<notin> set keep_cols
                                      then keep_cols @ [docid_col] else keep_cols)
                     in select_columns dataframe keep_cols)))"

section \<open>Reconciler: filtering and deduplicating the metadata\<close>

text \<open>\<open>df[mask]\<close>: the rows at which the boolean mask holds, in their order.\<close>

definition boolean_mask :: "dataframe \<Rightarrow> bool list \<Rightarrow> dataframe" where
  "boolean_mask df bools = df\<lparr>rows := map fst (filter snd (zip (rows df) bools))\<rparr>"

text \<open>\<open>Series.isin(values)\<close>: a missing value is in no set of strings.\<close>

definition isin :: "cell list \<Rightarrow> string set \<Rightarrow> bool list" where
  "isin col vals = map (\<lambda>c. case c of None \<Rightarrow> False | Some s \<Rightarrow> s \<in> vals) col"

text \<open>
  \<open>duplicated(keep="first")\<close>: true at every position whose value already occurred
  at an earlier position; missing values count as equal to each other.
\<close>

fun duplicated_from :: "'a list \<Rightarrow> 'a list \<Rightarrow> bool list" where
  "duplicated_from seen [] = []"
| "duplicated_from seen (x # xs) = (x \<in> set seen) # duplicated_from (x # seen) xs"

definition duplicated :: "'a list \<Rightarrow> bool list" where
  "duplicated xs = duplicated_from [] xs"

text \<open>\<open>df.drop_duplicates(subset=[c])\<close>, which keeps the first row of each value.\<close>

definition drop_duplicates :: "dataframe \<Rightarrow> string \<Rightarrow> error + dataframe" where
  "drop_duplicates df key_col =
     (case get_column df key_col of
        Inl e \<Rightarrow> Inl e
      | Inr col \<Rightarrow> Inr (boolean_mask df (map Not (duplicated col))))"

text \<open>
  \<^verbatim>\<open>
  matched_files = content_versions[content_versions["ContentDocumentId"].isin(docid_set)].copy()
  matched_files = matched_files.drop_duplicates(subset=["ContentDocumentId"])
  \<close>
\<close>

definition matched_files :: "dataframe \<Rightarrow> string set \<Rightarrow> error + dataframe" where
  "matched_files content_versions docid_set =
     (case get_column content_versions ''ContentDocumentId'' of
        Inl e \<Rightarrow> Inl e
      | Inr ids \<Rightarrow>
          drop_duplicates (boolean_mask content_versions (isin ids docid_set))
            ''ContentDocumentId'')"

section \<open>Reconciler: merge\<close>

text \<open>
  \<open>left.merge(right, how="left", left_on=.., right_on=.., suffixes=(lsuffix, rsuffix))\<close>.
  A label that both tables carry gets the suffix of its side. When both key columns have
  the same name, the result has the key once, from the left table. The merge refuses
  suffixes that make a label repeat within one side, and suffixes that turn a label into
  one that the other table has under a name of its own.
\<close>

definition overlap_rename :: "string list \<Rightarrow> string list \<Rightarrow> string \<Rightarrow> string list" where
  "overlap_rename own other suffix = map (\<lambda>c. if c \<in> set other then c @ suffix else c) own"

definition suffix_dups :: "string list \<Rightarrow> string list \<Rightarrow> string list" where
  "suffix_dups old new =
     map fst (filter (\<lambda>(c, dn, d). dn \<and> \<not> d) (zip new (zip (duplicated new) (duplicated old))))"

definition right_labels :: "dataframe \<Rightarrow> string \<Rightarrow> string \<Rightarrow> string list" where
  "right_labels right_df left_on right_on =
     filter (\<lambda>c. left_on \<noteq> right_on \<or> c \<noteq> right_on) (columns right_df)"

definition right_cells :: "dataframe \<Rightarrow> string \<Rightarrow> string \<Rightarrow> cell list \<Rightarrow> cell list" where
  "right_cells right_df left_on right_on r =
     map snd (filter (\<lambda>(c, v). left_on \<noteq> right_on \<or> c \<noteq> right_on)
                (zip (columns right_df) (fit (length (columns right_df)) r)))"

definition label_clashes ::
  "dataframe \<Rightarrow> dataframe \<Rightarrow> string \<Rightarrow> string \<Rightarrow> string \<Rightarrow> string \<Rightarrow> string list" where
  "label_clashes left_df right_df left_on right_on lsuffix rsuffix =
     (let lcols = columns left_df;
          rcols = right_labels right_df left_on right_on;
          llabels = overlap_rename lcols rcols lsuffix;
          rlabels = overlap_rename rcols lcols rsuffix
      in suffix_dups lcols llabels
         @ suffix_dups rcols rlabels
         @ filter (\<lambda>c. c \<in> set rcols \<and> c \<notin> set lcols) llabels
         @ filter (\<lambda>c. c \<in> set lcols \<and> c \<notin> set rcols) rlabels)"

text \<open>
  The rows of a left join: every left row in order, once for each right row with an equal
  key (missing keys match missing keys), or once with missing right cells when no right
  row matches.
\<close>

definition joined_rows_for ::
  "dataframe \<Rightarrow> dataframe \<Rightarrow> string \<Rightarrow> string \<Rightarrow> cell list \<Rightarrow> cell list list" where
  "joined_rows_for left_df right_df left_on right_on l =
     (case filter (\<lambda>r. cell_at r (index_of right_on (columns right_df))
                       = cell_at l (index_of left_on (columns left_df))) (rows right_df) of
        [] \<Rightarrow> [fit (length (columns left_df)) l
                @ replicate (length (right_labels right_df left_on right_on)) None]
      | ms \<Rightarrow> map (\<lambda>r. fit (length (columns left_df)) l
                         @ right_cells right_df left_on right_on r) ms)"

definition merge_rows ::
  "dataframe \<Rightarrow> dataframe \<Rightarrow> string \<Rightarrow> string \<Rightarrow> cell list list" where
  "merge_rows left_df right_df left_on right_on =
     concat (map (joined_rows_for left_df right_df left_on right_on) (rows left_df))"

definition merge_left ::
  "dataframe \<Rightarrow> dataframe \<Rightarrow> string \<Rightarrow> string \<Rightarrow> string \<Rightarrow> string \<Rightarrow> error + dataframe" where
  "merge_left left_df right_df left_on right_on lsuffix rsuffix =
     (if left_on \<notin> set (columns left_df) then Inl (KeyError left_on)
      else if right_on \<notin> set (columns right_df) then Inl (KeyError right_on)
      else if label_clashes left_df right_df left_on right_on lsuffix rsuffix \<noteq> []
      then Inl MergeError
      else Inr \<lparr>columns =
                  overlap_rename (columns left_df) (right_labels right_df left_on right_on)
                    lsuffix
                  @ overlap_rename (right_labels right_df left_on right_on) (columns left_df)
                      rsuffix,
                rows = merge_rows left_df right_df left_on right_on\<rparr>)"

text \<open>
  \<^verbatim>\<open>
  merged = site_tracker_df.merge(files_df, how="left", left_on=docid_col,
                                 right_on="ContentDocumentId", suffixes=("", "_File"))
  if "Id" in merged.columns:
      merged["SiteTrackerAttachmentUrl"] = merged["Id"].apply(
          lambda attachment_id: (
              f"{instance_url}/lightning/r/sitetracker__Attachment__c/{attachment_id}/view"
              if pd.notna(attachment_id) else pd.NA))
  return merged
  \<close>
\<close>

definition attachment_url :: "string \<Rightarrow> cell \<Rightarrow> cell" where
  "attachment_url instance_url attachment_id =
     (case attachment_id of
        Some a \<Rightarrow> Some (instance_url @ ''/lightning/r/sitetracker__Attachment__c/'' @ a @ ''/view'')
      | None \<Rightarrow> None)"

definition merge_site_tracker_and_files ::
  "dataframe \<Rightarrow> dataframe \<Rightarrow> string \<Rightarrow> string \<Rightarrow> error + dataframe" where
  "merge_site_tracker_and_files site_tracker_df files_df docid_col instance_url =
     (case merge_left site_tracker_df files_df docid_col ''ContentDocumentId'' '''' ''_File'' of
        Inl e \<Rightarrow> Inl e
      | Inr merged \<Rightarrow>
          if ''Id'' \<in> set (columns merged)
          then (case get_column merged ''Id'' of
                  Inl e \<Rightarrow> Inl e
                | Inr ids \<Rightarrow>
                    Inr (set_column merged ''SiteTrackerAttachmentUrl''
                           (map (attachment_url instance_url) ids)))
          else Inr merged)"

section \<open>Bulk export client\<close>

text \<open>
  An HTTP response as the client reads it: the status code, the body text, the headers,
  and what \<open>response.json()\<close> gives, the decoded status object or nothing when the body
  does not decode to one. The server is a script of responses, one for each request in
  order; a loop that has used the script up is still waiting for the next response.
\<close>

datatype json_value = JString string | JNumber int | JBool bool | JNull

type_synonym job_info = "(string \<times> json_value) list"

record response =
  status_code :: nat
  response_text :: string
  headers :: "(string \<times> string) list"
  json :: "job_info option"

datatype 'a outcome = Returned 'a | Raised error | Waiting

text \<open>\<open>response.raise_for_status()\<close> raises for the client and server error codes.\<close>

definition raise_for_status :: "response \<Rightarrow> error option" where
  "raise_for_status r =
     (if 400 \<le> status_code r \<and> status_code r < 600 then Some (HTTPError (status_code r))
      else None)"

text \<open>
  \<^verbatim>\<open>
  while True:
      response = requests.get(url, headers=headers, timeout=60)
      response.raise_for_status()
      info = response.json()
      state = info.get("state")
      if state in ("JobComplete", "Failed", "Aborted"):
          if state != "JobComplete":
              raise RuntimeError(f"Bulk job ended in state {state}: {info}")
          return info
      time.sleep(3)
  \<close>
  The result is the outcome together with the arguments of the \<open>time.sleep\<close> calls made,
  in order. \<open>str_of_info\<close> is Python's rendering of the status object in the f-string.
  Only a string can be equal to one of the three state names.
\<close>

fun bulk2_wait_job :: "(job_info \<Rightarrow> string) \<Rightarrow> response list \<Rightarrow> job_info outcome \<times> nat list" where
  "bulk2_wait_job str_of_info [] = (Waiting, [])"
| "bulk2_wait_job str_of_info (r # rs) =
     (case raise_for_status r of
        Some e \<Rightarrow> (Raised e, [])
      | None \<Rightarrow>
          (case json r of
             None \<Rightarrow> (Raised JSONDecodeError, [])
           | Some info \<Rightarrow>
               (case map_of info ''state'' of
                  Some (JString state) \<Rightarrow>
                    if state \<in> set [''JobComplete'', ''Failed'', ''Aborted'']
                    then (if state \<noteq> ''JobComplete''
                          then (Raised (RuntimeError (''Bulk job ended in state '' @ state
                                   @ '': '' @ str_of_info info)), [])
                          else (Returned info, []))
                    else (case bulk2_wait_job str_of_info rs of
                            (out, sleeps) \<Rightarrow> (out, 3 # sleeps))
                | _ \<Rightarrow> (case bulk2_wait_job str_of_info rs of
                           (out, sleeps) \<Rightarrow> (out, 3 # sleeps)))))"

text \<open>\<open>str.lower()\<close> on the letters A to Z; other one-byte characters are unchanged.\<close>

definition lower_char :: "char \<Rightarrow> char" where
  "lower_char c =
     (case map_of (zip ''ABCDEFGHIJKLMNOPQRSTUVWXYZ'' ''abcdefghijklmnopqrstuvwxyz'') c of
        Some d \<Rightarrow> d
      | None \<Rightarrow> c)"

definition lower :: "string \<Rightarrow> string" where
  "lower s = map lower_char s"

text \<open>
  \<open>response.headers.get(key)\<close>. The headers of a response are a case-insensitive dictionary:
  the field is found under any spelling of its name that agrees with \<open>key\<close> up to letter
  case. \<open>headers\<close> lists the fields of the dictionary with the names as the server sent
  them; \<open>None\<close> is the default of \<open>get\<close> when there is no such field.
\<close>

definition headers_get :: "(string \<times> string) list \<Rightarrow> string \<Rightarrow> string option" where
  "headers_get hs key = map_of (map (\<lambda>(k, v). (lower k, v)) hs) (lower key)"

record fetch_params =
  maxRecords :: int
  locator :: "string option"

text \<open>
  \<^verbatim>\<open>
  params = {"maxRecords": max_records}
  if locator:
      params["locator"] = locator
  \<close>
\<close>

definition request_params :: "int \<Rightarrow> string option \<Rightarrow> fetch_params" where
  "request_params max_records loc =
     \<lparr>maxRecords = max_records,
      locator = (case loc of None \<Rightarrow> None | Some c \<Rightarrow> if c \<noteq> [] then Some c else None)\<rparr>"

text \<open>
  \<^verbatim>\<open>
  if response.text.strip():
      frames.append(pd.read_csv(StringIO(response.text)))
  \<close>
  \<open>read_csv\<close> is the CSV parser of the table library.
\<close>

definition add_page ::
  "(string \<Rightarrow> error + dataframe) \<Rightarrow> dataframe list \<Rightarrow> response \<Rightarrow> error + dataframe list" where
  "add_page read_csv frames r =
     (if strip (response_text r) \<noteq> []
      then (case read_csv (response_text r) of
              Inl e \<Rightarrow> Inl e
            | Inr frame \<Rightarrow> Inr (frames @ [frame]))
      else Inr frames)"

text \<open>\<open>not locator or locator.lower() == "null"\<close>\<close>

definition cursor_done :: "string option \<Rightarrow> bool" where
  "cursor_done loc =
     (case loc of None \<Rightarrow> True | Some c \<Rightarrow> c = [] \<or> lower c = ''null'')"

text \<open>
  \<open>pd.concat(frames, ignore_index=True)\<close>: the labels of all frames in order of first
  appearance, every row of every frame in order, with the missing value under a label that
  its frame does not have. An empty list of frames raises \<open>ValueError\<close>.
\<close>

definition concat_frames :: "dataframe list \<Rightarrow> dataframe" where
  "concat_frames frames =
     (let cols = unique (concat (map columns frames))
      in \<lparr>columns = cols,
          rows = concat (map (\<lambda>f. map (\<lambda>r. map (\<lambda>c. if c \<in> set (columns f)
                                                       then cell_at r (index_of c (columns f))
                                                       else None) cols) (rows f)) frames)\<rparr>)"

definition pd_concat :: "dataframe list \<Rightarrow> error + dataframe" where
  "pd_concat frames = (if frames = [] then Inl ValueError else Inr (concat_frames frames))"

definition empty_dataframe :: dataframe where
  "empty_dataframe = \<lparr>columns = [], rows = []\<rparr>"

text \<open>\<open>return pd.concat(frames, ignore_index=True) if frames else pd.DataFrame()\<close>\<close>

definition concat_result :: "dataframe list \<Rightarrow> dataframe outcome" where
  "concat_result frames =
     (if frames \<noteq> []
      then (case pd_concat frames of Inl e \<Rightarrow> Raised e | Inr df \<Rightarrow> Returned df)
      else Returned empty_dataframe)"

text \<open>
  \<^verbatim>\<open>
  while True:
      params = {"maxRecords": max_records}
      if locator:
          params["locator"] = locator
      response = requests.get(url, headers=headers, params=params, timeout=300)
      response.raise_for_status()
      if response.text.strip():
          frames.append(pd.read_csv(StringIO(response.text)))
      locator = response.headers.get("Sforce-Locator")
      if not locator or locator.lower() == "null":
          break
  return pd.concat(frames, ignore_index=True) if frames else pd.DataFrame()
  \<close>
  The result is the outcome together with the parameters of the requests issued, in order.
\<close>

fun fetch_loop ::
  "(string \<Rightarrow> error + dataframe) \<Rightarrow> int \<Rightarrow> string option \<Rightarrow> dataframe list \<Rightarrow> response list
   \<Rightarrow> dataframe outcome \<times> fetch_params list" where
  "fetch_loop read_csv max_records loc frames [] =
     (Waiting, [request_params max_records loc])"
| "fetch_loop read_csv max_records loc frames (r # rs) =
     (case raise_for_status r of
        Some e \<Rightarrow> (Raised e, [request_params max_records loc])
      | None \<Rightarrow>
          (case add_page read_csv frames r of
             Inl e \<Rightarrow> (Raised e, [request_params max_records loc])
           | Inr frames' \<Rightarrow>
               if cursor_done (headers_get (headers r) ''Sforce-Locator'')
               then (concat_result frames', [request_params max_records loc])
               else (case fetch_loop read_csv max_records
                            (headers_get (headers r) ''Sforce-Locator'') frames' rs of
                       (out, reqs) \<Rightarrow> (out, request_params max_records loc # reqs))))"

definition bulk2_fetch_results ::
  "(string \<Rightarrow> error + dataframe) \<Rightarrow> int \<Rightarrow> response list
   \<Rightarrow> dataframe outcome \<times> fetch_params list" where
  "bulk2_fetch_results read_csv max_records responses =
     fetch_loop read_csv max_records None [] responses"

text \<open>
  A poll that keeps the wait loop going: a response that passes the status check and
  decodes to a status object whose state is none of the three terminal states.
\<close>

definition pending_poll :: "response \<Rightarrow> bool" where
  "pending_poll p \<longleftrightarrow>
     raise_for_status p = None \<and>
     (case json p of
        None \<Rightarrow> False
      | Some info \<Rightarrow>
          (case map_of info ''state'' of
             Some (JString state) \<Rightarrow> state \<notin> set [''JobComplete'', ''Failed'', ''Aborted'']
           | _ \<Rightarrow> True))"

text \<open>
  A page the fetch loop takes in: the response passes the status check and its body, when
  not blank, parses. The frames of a run are the parsed bodies of its non-blank pages, in
  arrival order.
\<close>

definition page_accepted :: "(string \<Rightarrow> error + dataframe) \<Rightarrow> response \<Rightarrow> bool" where
  "page_accepted read_csv r \<longleftrightarrow>
     raise_for_status r = None \<and>
     (if strip (response_text r) \<noteq> []
      then (case read_csv (response_text r) of Inl e \<Rightarrow> False | Inr frame \<Rightarrow> True)
      else True)"

definition page_frames :: "(string \<Rightarrow> error + dataframe) \<Rightarrow> response list \<Rightarrow> dataframe list" where
  "page_frames read_csv rs =
     concat (map (\<lambda>r. if strip (response_text r) \<noteq> []
                      then (case read_csv (response_text r) of Inl e \<Rightarrow> [] | Inr frame \<Rightarrow> [frame])
                      else []) rs)"

section \<open>Facts about the table operations\<close>

lemma set_unique_from: "set (unique_from seen xs) = set xs - set seen"
  by (induction xs arbitrary: seen) auto

lemma set_unique: "set (unique xs) = set xs"
  by (simp add: unique_def set_unique_from)

lemma distinct_unique_from: "distinct (unique_from seen xs)"
  by (induction xs arbitrary: seen) (auto simp: set_unique_from)

lemma index_of_less: "x \<in> set xs \<Longrightarrow> index_of x xs < length xs"
  by (induction xs) auto

lemma index_of_nth: "x \<in> set xs \<Longrightarrow> xs ! index_of x xs = x"
  by (induction xs) auto

lemma index_of_append_new: "x \<notin> set xs \<Longrightarrow> index_of x (xs @ [x]) = length xs"
  by (induction xs) auto

lemma length_fit: "length (fit n r) = n"
  by (simp add: fit_def)

lemma cell_at_fit: "i < n \<Longrightarrow> cell_at (fit n r) i = cell_at r i"
  by (auto simp: cell_at_def fit_def nth_append)

lemma docids_of_column:
  "set (filter (\<lambda>s. 0 < length s) (map astype_str (dropna col))) = {s. Some s \<in> set col \<and> s \<noteq> []}"
proof (induction col)
  case Nil
  then show ?case by (simp add: dropna_def)
next
  case (Cons c col)
  then show ?case by (cases c) (auto simp: dropna_def)
qed

lemma length_rows_set_column:
  "length vals = length (rows df) \<Longrightarrow> length (rows (set_column df c vals)) = length (rows df)"
  by (simp add: set_column_def Let_def)

lemma get_set_column:
  assumes "length vals = length (rows df)"
  shows "get_column (set_column df c vals) c = Inr vals"
proof (cases "c \<in> set (columns df)")
  case True
  have "cell_at ((fit (length (columns df)) r)[index_of c (columns df) := v])
          (index_of c (columns df)) = v" for r v
    using index_of_less [OF True] by (simp add: cell_at_def length_fit)
  then have "map (\<lambda>r. cell_at r (index_of c (columns df)))
         (map (\<lambda>(r, v). (fit (length (columns df)) r)[index_of c (columns df) := v])
            (zip (rows df) vals)) = map snd (zip (rows df) vals)"
    by (simp add: case_prod_unfold)
  then show ?thesis
    using True assms by (simp add: get_column_def set_column_def Let_def)
next
  case False
  have "cell_at (fit (length (columns df)) r @ [v]) (length (columns df)) = v" for r v
    by (simp add: cell_at_def length_fit nth_append)
  then have "map (\<lambda>r. cell_at r (length (columns df)))
         (map (\<lambda>(r, v). fit (length (columns df)) r @ [v]) (zip (rows df) vals))
       = map snd (zip (rows df) vals)"
    by (simp add: case_prod_unfold)
  then show ?thesis
    using False assms
    by (simp add: get_column_def set_column_def Let_def index_of_append_new)
qed

lemma select_columns_present:
  assumes "set keep_cols \<subseteq> set (columns df)"
  shows "select_columns df keep_cols =
         Inr \<lparr>columns = keep_cols,
              rows = map (\<lambda>r. map (\<lambda>c. cell_at r (index_of c (columns df))) keep_cols)
                       (rows df)\<rparr>"
proof -
  have "filter (\<lambda>c. c \<notin> set (columns df)) keep_cols = []"
    using assms by (auto simp: filter_empty_conv)
  then show ?thesis by (simp add: select_columns_def)
qed

lemma cell_at_map_index_of:
  "c \<in> set cs \<Longrightarrow> cell_at (map f cs) (index_of c cs) = f c"
  by (simp add: cell_at_def index_of_less index_of_nth)

lemma get_column_select_columns:
  assumes "set keep_cols \<subseteq> set (columns df)" and "c \<in> set keep_cols"
  shows "get_column \<lparr>columns = keep_cols,
              rows = map (\<lambda>r. map (\<lambda>c. cell_at r (index_of c (columns df))) keep_cols)
                       (rows df)\<rparr> c = get_column df c"
proof -
  have "c \<in> set (columns df)" using assms by blast
  then show ?thesis
    using assms(2) by (simp add: get_column_def cell_at_map_index_of comp_def)
qed

lemma mask_map_filter: "map fst (filter snd (zip xs (map p xs))) = filter p xs"
  by (induction xs) auto

lemma kept_first_Cons:
  "map fst (filter snd (zip (x # xs) (map Not (duplicated_from seen (map f (x # xs))))))
   = (if f x \<in> set seen then [] else [x])
     @ map fst (filter snd (zip xs (map Not (duplicated_from (f x # seen) (map f xs)))))"
  by simp

lemma kept_first_keys:
  "distinct (map f (map fst (filter snd (zip xs (map Not (duplicated_from seen (map f xs)))))))
   \<and> set (map f (map fst (filter snd (zip xs (map Not (duplicated_from seen (map f xs)))))))
     = f ` set xs - set seen"
proof (induction xs arbitrary: seen)
  case Nil
  then show ?case by simp
next
  case (Cons x xs)
  show ?case
    unfolding kept_first_Cons using Cons [of "f x # seen"] by auto
qed

lemma kept_first_subset:
  "set (map fst (filter snd (zip xs (map Not (duplicated_from seen (map f xs)))))) \<subseteq> set xs"
  by (auto dest: set_zip_leftD)

lemma kept_first_find:
  "r \<in> set (map fst (filter snd (zip xs (map Not (duplicated_from seen (map f xs))))))
   \<Longrightarrow> find (\<lambda>x. f x = f r) xs = Some r"
proof (induction xs arbitrary: seen)
  case Nil
  then show ?case by simp
next
  case (Cons x xs)
  let ?rest = "map fst (filter snd (zip xs (map Not (duplicated_from (f x # seen) (map f xs)))))"
  from Cons.prems have "r \<in> set ((if f x \<in> set seen then [] else [x]) @ ?rest)"
    unfolding kept_first_Cons .
  then consider "r = x" | "r \<in> set ?rest"
    by (auto split: if_splits)
  then show ?case
  proof cases
    case 1
    then show ?thesis by simp
  next
    case 2
    then have "f r \<in> f ` set ?rest" by (rule imageI)
    then have "f r \<in> set (map f ?rest)" by (simp only: set_map)
    then have "f r \<notin> set (f x # seen)"
      using kept_first_keys [of f xs "f x # seen"] by blast
    then have "f x \<noteq> f r" by auto
    then show ?thesis using Cons.IH [OF 2] by simp
  qed
qed

lemma find_filter_same_key:
  "p (f r) \<Longrightarrow> find (\<lambda>x. f x = f r) (filter (\<lambda>x. p (f x)) xs) = find (\<lambda>x. f x = f r) xs"
  by (induction xs) auto

lemma length_concat_singletons:
  "(\<And>x. x \<in> set xs \<Longrightarrow> length (g x) = 1) \<Longrightarrow> length (concat (map g xs)) = length xs"
  by (induction xs) auto

lemma distinct_key_filter:
  "distinct (map k rs) \<Longrightarrow> length (filter (\<lambda>r. k r = v) rs) \<le> 1"
proof (induction rs)
  case Nil
  then show ?case by simp
next
  case (Cons r rs)
  show ?case
  proof (cases "k r = v")
    case True
    then have "v \<notin> k ` set rs" using Cons.prems by auto
    then have "filter (\<lambda>r. k r = v) rs = []"
      by (auto simp: filter_empty_conv)
    then show ?thesis using True by simp
  next
    case False
    then show ?thesis using Cons by simp
  qed
qed

lemma length_joined_rows_for:
  assumes "distinct (map (\<lambda>r. cell_at r (index_of right_on (columns right_df))) (rows right_df))"
  shows "length (joined_rows_for left_df right_df left_on right_on l) = 1"
proof -
  let ?ms = "filter (\<lambda>r. cell_at r (index_of right_on (columns right_df))
                          = cell_at l (index_of left_on (columns left_df))) (rows right_df)"
  have "length ?ms \<le> 1"
    using assms by (rule distinct_key_filter)
  then show ?thesis
    unfolding joined_rows_for_def by (cases ?ms) auto
qed

lemma length_merge_rows:
  assumes "distinct (map (\<lambda>r. cell_at r (index_of right_on (columns right_df))) (rows right_df))"
  shows "length (merge_rows left_df right_df left_on right_on) = length (rows left_df)"
  unfolding merge_rows_def
  by (rule length_concat_singletons) (rule length_joined_rows_for [OF assms])

lemma joined_rows_for_left_cell:
  assumes "j < length (columns left_df)"
    and "r \<in> set (joined_rows_for left_df right_df left_on right_on l)"
  shows "cell_at r j = cell_at l j"
proof -
  have "cell_at (fit (length (columns left_df)) l @ t) j = cell_at l j" for t
    using assms(1) cell_at_fit [OF assms(1), of l]
    by (simp add: cell_at_def length_fit nth_append)
  then show ?thesis
    using assms(2) unfolding joined_rows_for_def by (auto split: list.splits)
qed

lemma merge_rows_left_cells:
  assumes "j < length (columns left_df)"
  shows "set (map (\<lambda>r. cell_at r j) (merge_rows left_df right_df left_on right_on))
           \<subseteq> set (map (\<lambda>l. cell_at l j) (rows left_df))"
  using joined_rows_for_left_cell [OF assms]
  unfolding merge_rows_def by fastforce

lemma map_concat_singletons:
  "(\<And>x. x \<in> set xs \<Longrightarrow> \<exists>y. g x = [y] \<and> h y = k x)
   \<Longrightarrow> map h (concat (map g xs)) = map k xs"
proof (induction xs)
  case Nil
  then show ?case by simp
next
  case (Cons a xs)
  from Cons.prems [of a] obtain y where "g a = [y]" and "h y = k a" by auto
  moreover have "map h (concat (map g xs)) = map k xs"
    using Cons.prems by (intro Cons.IH) simp
  ultimately show ?case by simp
qed

lemma merge_rows_left_column:
  assumes "distinct (map (\<lambda>r. cell_at r (index_of right_on (columns right_df))) (rows right_df))"
    and "j < length (columns left_df)"
  shows "map (\<lambda>r. cell_at r j) (merge_rows left_df right_df left_on right_on)
         = map (\<lambda>l. cell_at l j) (rows left_df)"
  unfolding merge_rows_def
proof (rule map_concat_singletons)
  fix l
  have "length (joined_rows_for left_df right_df left_on right_on l) = 1"
    using assms(1) by (rule length_joined_rows_for)
  then obtain y where y: "joined_rows_for left_df right_df left_on right_on l = [y]"
    by (cases "joined_rows_for left_df right_df left_on right_on l") auto
  then have "cell_at y j = cell_at l j"
    using joined_rows_for_left_cell [OF assms(2), of y right_df left_on right_on l] by simp
  then show "\<exists>y. joined_rows_for left_df right_df left_on right_on l = [y]
                \<and> cell_at y j = cell_at l j"
    using y by simp
qed

lemma overlap_rename_empty_suffix: "overlap_rename own other [] = own"
  by (induction own) (simp_all add: overlap_rename_def)

lemma index_of_append_old: "x \<in> set xs \<Longrightarrow> index_of x (xs @ ys) = index_of x xs"
  by (induction xs) auto

lemma index_of_neq: "x \<in> set xs \<Longrightarrow> x \<noteq> y \<Longrightarrow> index_of x xs \<noteq> index_of y xs"
  by (induction xs) auto

lemma get_set_column_other:
  assumes "length vals = length (rows df)" and "c' \<in> set (columns df)" and "c' \<noteq> c"
  shows "get_column (set_column df c vals) c' = get_column df c'"
proof -
  let ?n = "length (columns df)"
  let ?j = "index_of c' (columns df)"
  have j: "?j < ?n" using assms(2) by (rule index_of_less)
  have zip_fst: "map fst (zip (rows df) vals) = rows df"
    using assms(1) by simp
  show ?thesis
  proof (cases "c \<in> set (columns df)")
    case True
    have "cell_at ((fit ?n r)[index_of c (columns df) := v]) ?j = cell_at r ?j" for r v
      using index_of_neq [OF assms(2,3)] j cell_at_fit [OF j, of r]
      by (simp add: cell_at_def length_fit)
    then have "map (\<lambda>r. cell_at r ?j)
         (map (\<lambda>(r, v). (fit ?n r)[index_of c (columns df) := v]) (zip (rows df) vals))
       = map (\<lambda>r. cell_at r ?j) (map fst (zip (rows df) vals))"
      by (simp add: case_prod_unfold)
    then show ?thesis
      using True assms(2) by (simp add: get_column_def set_column_def Let_def zip_fst)
  next
    case False
    have "cell_at (fit ?n r @ [v]) ?j = cell_at r ?j" for r v
      using j cell_at_fit [OF j, of r] by (simp add: cell_at_def length_fit nth_append)
    then have "map (\<lambda>r. cell_at r ?j)
         (map (\<lambda>(r, v). fit ?n r @ [v]) (zip (rows df) vals))
       = map (\<lambda>r. cell_at r ?j) (map fst (zip (rows df) vals))"
      by (simp add: case_prod_unfold)
    then show ?thesis
      using False assms(2)
      by (simp add: get_column_def set_column_def Let_def zip_fst index_of_append_old)
  qed
qed

lemma length_get_column: "get_column df c = Inr col \<Longrightarrow> length col = length (rows df)"
  by (auto simp: get_column_def split: if_splits)

lemma bulk2_wait_job_pending:
  assumes "pending_poll p"
  shows "bulk2_wait_job str_of_info (p # rs)
         = (case bulk2_wait_job str_of_info rs of (out, sleeps) \<Rightarrow> (out, 3 # sleeps))"
  using assms
  by (auto simp: pending_poll_def split: option.splits json_value.splits)

lemma bulk2_wait_job_pending_prefix:
  assumes "\<forall>p \<in> set polls. pending_poll p"
  shows "bulk2_wait_job str_of_info (polls @ rest)
         = (case bulk2_wait_job str_of_info rest of
              (out, sleeps) \<Rightarrow> (out, replicate (length polls) 3 @ sleeps))"
  using assms
proof (induction polls)
  case Nil
  then show ?case by (simp split: prod.splits)
next
  case (Cons p polls)
  then have p: "pending_poll p" and ps: "\<forall>p \<in> set polls. pending_poll p" by simp_all
  have "bulk2_wait_job str_of_info ((p # polls) @ rest)
      = (case bulk2_wait_job str_of_info (polls @ rest) of
           (out, sleeps) \<Rightarrow> (out, 3 # sleeps))"
    by (simp only: append_Cons bulk2_wait_job_pending [OF p])
  then show ?case
    using Cons.IH [OF ps] by (simp split: prod.splits del: bulk2_wait_job.simps)
qed

lemma bulk2_wait_job_returns_complete:
  "bulk2_wait_job str_of_info script = (Returned info, sleeps)
   \<Longrightarrow> map_of info ''state'' = Some (JString ''JobComplete'')"
proof (induction script arbitrary: sleeps)
  case Nil
  then show ?case by simp
next
  case (Cons r rs)
  then show ?case
    by (auto split: option.splits json_value.splits if_splits prod.splits)
qed

lemma add_page_accepted:
  "page_accepted read_csv r \<Longrightarrow> add_page read_csv frames r = Inr (frames @ page_frames read_csv [r])"
  by (auto simp: page_accepted_def add_page_def page_frames_def split: sum.splits if_splits)

lemma page_frames_append:
  "page_frames read_csv (xs @ ys) = page_frames read_csv xs @ page_frames read_csv ys"
  by (simp add: page_frames_def)

lemma page_frames_Cons:
  "page_frames read_csv (x # xs) = page_frames read_csv [x] @ page_frames read_csv xs"
  by (simp add: page_frames_def)

lemma cursor_done_iff:
  "cursor_done h \<longleftrightarrow> \<not> (\<exists>c. h = Some c \<and> c \<noteq> [] \<and> lower c \<noteq> ''null'')"
  by (cases h) (simp_all add: cursor_done_def)

lemma concat_result_returned:
  "concat_result frames
   = Returned (if frames = [] then empty_dataframe else concat_frames frames)"
  by (simp add: concat_result_def pd_concat_def)

lemma length_rows_concat_frames:
  "length (rows (concat_frames frames)) = sum_list (map (\<lambda>f. length (rows f)) frames)"
  by (simp add: concat_frames_def Let_def length_concat comp_def)

lemma fetch_loop_first_request:
  "\<exists>reqs. snd (fetch_loop read_csv max_records loc frames rs)
            = request_params max_records loc # reqs"
  by (cases rs) (auto split: option.splits sum.splits prod.splits)

lemma fetch_loop_step_done:
  assumes "page_accepted read_csv r"
    and "cursor_done (headers_get (headers r) ''Sforce-Locator'')"
  shows "fetch_loop read_csv max_records loc frames (r # rs)
         = (concat_result (frames @ page_frames read_csv [r]), [request_params max_records loc])"
proof -
  have "raise_for_status r = None"
    using assms(1) by (simp add: page_accepted_def)
  then show ?thesis
    using assms(2) add_page_accepted [OF assms(1), of frames] by simp
qed

lemma fetch_loop_step_live:
  assumes "page_accepted read_csv r"
    and "\<not> cursor_done (headers_get (headers r) ''Sforce-Locator'')"
  shows "fetch_loop read_csv max_records loc frames (r # rs)
         = (case fetch_loop read_csv max_records (headers_get (headers r) ''Sforce-Locator'')
                   (frames @ page_frames read_csv [r]) rs of
              (out, reqs) \<Rightarrow> (out, request_params max_records loc # reqs))"
proof -
  have "raise_for_status r = None"
    using assms(1) by (simp add: page_accepted_def)
  then show ?thesis
    using assms(2) add_page_accepted [OF assms(1), of frames] by simp
qed

lemma fetch_loop_run:
  assumes "\<forall>r \<in> set pages. page_accepted read_csv r
              \<and> \<not> cursor_done (headers_get (headers r) ''Sforce-Locator'')"
    and "page_accepted read_csv last_page"
    and "cursor_done (headers_get (headers last_page) ''Sforce-Locator'')"
  shows "fetch_loop read_csv max_records loc frames (pages @ last_page # rest)
         = (concat_result (frames @ page_frames read_csv (pages @ [last_page])),
            request_params max_records loc
            # map (\<lambda>r. request_params max_records (headers_get (headers r) ''Sforce-Locator''))
                pages)"
  using assms(1)
proof (induction pages arbitrary: loc frames)
  case Nil
  show ?case
    using fetch_loop_step_done [OF assms(2,3)] by simp
next
  case (Cons p pages)
  then have p: "page_accepted read_csv p"
    and live: "\<not> cursor_done (headers_get (headers p) ''Sforce-Locator'')"
    and rest: "\<forall>r \<in> set pages. page_accepted read_csv r
              \<and> \<not> cursor_done (headers_get (headers r) ''Sforce-Locator'')"
    by simp_all
  have "fetch_loop read_csv max_records loc frames ((p # pages) @ last_page # rest)
      = (case fetch_loop read_csv max_records (headers_get (headers p) ''Sforce-Locator'')
                   (frames @ page_frames read_csv [p]) (pages @ last_page # rest) of
              (out, reqs) \<Rightarrow> (out, request_params max_records loc # reqs))"
    by (simp only: append_Cons fetch_loop_step_live [OF p live])
  also have "\<dots> = (concat_result ((frames @ page_frames read_csv [p])
                        @ page_frames read_csv (pages @ [last_page])),
            request_params max_records loc
            # request_params max_records (headers_get (headers p) ''Sforce-Locator'')
            # map (\<lambda>r. request_params max_records (headers_get (headers r) ''Sforce-Locator''))
                pages)"
    by (simp only: Cons.IH [OF rest] prod.case)
  also have "(frames @ page_frames read_csv [p]) @ page_frames read_csv (pages @ [last_page])
      = frames @ page_frames read_csv ((p # pages) @ [last_page])"
    by (simp add: page_frames_def)
  finally show ?case by simp
qed

lemma page_frames_blank:
  "\<forall>r \<in> set rs. strip (response_text r) = [] \<Longrightarrow> page_frames read_csv rs = []"
  by (simp add: page_frames_def)

lemma merge_left_suffixed_label_taken:
  "merge_left
     \<lparr>columns = [''Title'', ''Title_File'', ''DocId''], rows = []\<rparr>
     \<lparr>columns = [''ContentDocumentId'', ''Title''], rows = []\<rparr>
     ''DocId'' ''ContentDocumentId'' '''' ''_File''
   = Inl MergeError"
  by (simp add: merge_left_def label_clashes_def right_labels_def suffix_dups_def
      overlap_rename_def duplicated_def)

lemma get_column_merge_left:
  assumes m: "merge_left left_df right_df left_on right_on [] rsuffix = Inr joined"
    and d: "distinct (map (\<lambda>r. cell_at r (index_of right_on (columns right_df)))
                       (rows right_df))"
    and c: "c \<in> set (columns left_df)"
  shows "get_column joined c = get_column left_df c"
proof -
  have j: "joined = \<lparr>columns =
                  overlap_rename (columns left_df) (right_labels right_df left_on right_on) []
                  @ overlap_rename (right_labels right_df left_on right_on) (columns left_df)
                      rsuffix,
               rows = merge_rows left_df right_df left_on right_on\<rparr>"
    using m by (auto simp: merge_left_def split: if_splits)
  have cols: "columns joined = columns left_df
      @ overlap_rename (right_labels right_df left_on right_on) (columns left_df) rsuffix"
    by (simp add: j overlap_rename_empty_suffix)
  have rws: "rows joined = merge_rows left_df right_df left_on right_on"
    by (simp add: j)
  have i: "index_of c (columns left_df) < length (columns left_df)"
    using c by (rule index_of_less)
  have "get_column joined c
      = Inr (map (\<lambda>r. cell_at r (index_of c (columns left_df)))
               (merge_rows left_df right_df left_on right_on))"
    using c by (simp add: get_column_def cols rws index_of_append_old)
  also have "\<dots> = Inr (map (\<lambda>l. cell_at l (index_of c (columns left_df))) (rows left_df))"
    by (simp only: merge_rows_left_column [OF d i])
  also have "\<dots> = get_column left_df c"
    using c by (simp add: get_column_def)
  finally show ?thesis .
qed

lemma columns_set_column_prefix:
  "take (length (columns df)) (columns (set_column df c vals)) = columns df"
  by (simp add: set_column_def Let_def)

lemma headers_get_any_case:
  "lower k = lower key \<Longrightarrow> headers_get ((k, v) # hs) key = Some v"
  by (simp add: headers_get_def)

section \<open>Claims\<close>

text \<open>
  C4. For every table and identifier column, \<open>extract_docids\<close> returns exactly the set of
  the distinct non-empty strings of that column, missing values dropped; the result does
  not depend on row order, nor on duplicate, blank or missing entries: two columns that
  hold the same strings once blanks and missing values are set aside give the same set.
\<close>

theorem extract_docids_exact:
  assumes "get_column df docid_col = Inr col"
  shows "extract_docids df docid_col = Inr {s. Some s \<in> set col \<and> s \<noteq> []}
       \<and> (\<forall>df' docid_col' col'.
            get_column df' docid_col' = Inr col' \<and>
            set col' \<union> {None, Some []} = set col \<union> {None, Some []}
            \<longrightarrow> extract_docids df' docid_col' = extract_docids df docid_col)"
proof -
  have ex: "extract_docids d c = Inr {s. Some s \<in> set k \<and> s \<noteq> []}"
    if "get_column d c = Inr k" for d c k
    using that docids_of_column [of k]
    by (simp add: extract_docids_def Let_def set_unique del: set_filter set_map)
  have same: "extract_docids df' docid_col' = extract_docids df docid_col"
    if g: "get_column df' docid_col' = Inr col'"
      and s: "set col' \<union> {None, Some []} = set col \<union> {None, Some []}"
    for df' docid_col' col'
  proof -
    have "{s. Some s \<in> set col' \<and> s \<noteq> []} = {s. Some s \<in> set col \<and> s \<noteq> []}"
      using s by blast
    then show ?thesis using ex [OF g] ex [OF assms] by simp
  qed
  show ?thesis using ex [OF assms] same by blast
qed

theorem extract_docids_exact_witness:
  "extract_docids \<lparr>columns = [''DocId''],
       rows = [[Some ''123''], [Some ''''], [None], [Some ''123''], [Some ''456'']]\<rparr> ''DocId''
     = Inr {''123'', ''456''}
   \<and> extract_docids \<lparr>columns = [''Name'', ''DocId''],
       rows = [[None, Some ''456''], [None, Some ''123'']]\<rparr> ''DocId''
     = extract_docids \<lparr>columns = [''DocId''],
       rows = [[Some ''123''], [Some ''''], [None], [Some ''123''], [Some ''456'']]\<rparr> ''DocId''"
proof -
  let ?a = "\<lparr>columns = [''DocId''],
       rows = [[Some ''123''], [Some ''''], [None], [Some ''123''], [Some ''456'']]\<rparr>"
  let ?c = "\<lparr>columns = [''Name'', ''DocId''],
       rows = [[None, Some ''456''], [None, Some ''123'']]\<rparr>"
  have ga: "get_column ?a ''DocId''
      = Inr [Some ''123'', Some '''', None, Some ''123'', Some ''456'']"
    by (simp add: get_column_def cell_at_def)
  have gc: "get_column ?c ''DocId'' = Inr [Some ''456'', Some ''123'']"
    by (simp add: get_column_def cell_at_def)
  have sets: "set [Some ''456'', Some ''123''] \<union> {None, Some []}
      = set [Some ''123'', Some '''', None, Some ''123'', Some ''456''] \<union> {None, Some []}"
    by auto
  note t = extract_docids_exact [OF ga]
  have "extract_docids ?a ''DocId'' = Inr {''123'', ''456''}"
    using t by auto
  moreover have "extract_docids ?c ''DocId'' = extract_docids ?a ''DocId''"
    using t gc sets by blast
  ultimately show ?thesis by simp
qed

text \<open>
  C10. For every metadata row, \<open>add_file_urls\<close> sets the \<open>FileUrl\<close> column to the template
  \<open><base>/lightning/r/ContentDocument/<identifier>/view\<close> applied to the base URL and the
  row's identifier, keeping the number of rows; for \<open>http://example.com\<close> and \<open>DOC1\<close> the
  URL is \<open>http://example.com/lightning/r/ContentDocument/DOC1/view\<close>.
\<close>

theorem add_file_urls_template:
  assumes "get_column df ''ContentDocumentId'' = Inr ids"
  shows "\<exists>df'. add_file_urls df instance_url = Inr df'
           \<and> length (rows df') = length (rows df)
           \<and> get_column df' ''FileUrl''
               = Inr (map (\<lambda>c. Some (instance_url @ ''/lightning/r/ContentDocument/''
                                        @ astype_str c @ ''/view'')) ids)
           \<and> file_url ''http://example.com'' ''DOC1''
               = ''http://example.com/lightning/r/ContentDocument/DOC1/view''"
proof -
  have len: "length ids = length (rows df)"
    using assms by (auto simp: get_column_def split: if_splits)
  have "get_column (set_column df ''FileUrl'' vals) ''FileUrl'' = Inr vals"
    if "length vals = length (rows df)" for vals
    using that by (rule get_set_column)
  then show ?thesis
    using assms len
    by (simp add: add_file_urls_def file_url_def length_rows_set_column)
qed

theorem add_file_urls_template_witness:
  "\<exists>df'. add_file_urls \<lparr>columns = [''ContentDocumentId'', ''Title''],
                          rows = [[Some ''DOC1'', Some ''File 1''], [Some ''DOC2'', None]]\<rparr>
              ''http://example.com'' = Inr df'
         \<and> get_column df' ''FileUrl''
             = Inr [Some ''http://example.com/lightning/r/ContentDocument/DOC1/view'',
                    Some ''http://example.com/lightning/r/ContentDocument/DOC2/view'']"
proof -
  let ?d = "\<lparr>columns = [''ContentDocumentId'', ''Title''],
             rows = [[Some ''DOC1'', Some ''File 1''], [Some ''DOC2'', None]]\<rparr>"
  have g: "get_column ?d ''ContentDocumentId'' = Inr [Some ''DOC1'', Some ''DOC2'']"
    by (simp add: get_column_def cell_at_def)
  show ?thesis
    using add_file_urls_template [OF g, of "''http://example.com''"] by auto
qed

text \<open>
  C9. For every readable input CSV whose header lacks the required identifier column,
  \<open>read_sitetracker_csv\<close> ends with \<open>SystemExit\<close> and the message naming the column: the
  process exits with a non-zero status, and what is raised is not an \<open>Exception\<close>.
\<close>

theorem read_sitetracker_csv_missing_docid:
  assumes "docid_col \<notin> set (columns dataframe)"
  shows "\<exists>e. read_sitetracker_csv (Inr dataframe) docid_col selected_columns = Inl e
           \<and> e = SystemExit (''Column not found in SiteTracker CSV: '' @ docid_col)
           \<and> exit_status e \<noteq> 0 \<and> \<not> is_exception e"
  using assms by (simp add: read_sitetracker_csv_def)

theorem read_sitetracker_csv_missing_docid_witness:
  "\<exists>e. read_sitetracker_csv
          (Inr \<lparr>columns = [''Name'', ''Other''], rows = [[Some ''A'', Some ''X'']]\<rparr>)
          ''DocId'' (Some [''Name'']) = Inl e
       \<and> e = SystemExit ''Column not found in SiteTracker CSV: DocId''
       \<and> exit_status e \<noteq> 0 \<and> \<not> is_exception e"
  using read_sitetracker_csv_missing_docid
    [of "''DocId''" "\<lparr>columns = [''Name'', ''Other''], rows = [[Some ''A'', Some ''X'']]\<rparr>"
        "Some [''Name'']"]
  by simp

text \<open>
  C5, as stated, fails: a requested name is compared with the header only after
  \<open>strip()\<close>, so the header column \<open>" Name"\<close>, requested as \<open>" Name"\<close>, is looked up as
  \<open>"Name"\<close>, not found, and left out of the result although it was requested and exists.
\<close>

theorem read_sitetracker_csv_padded_name_dropped:
  "read_sitetracker_csv
     (Inr \<lparr>columns = ['' Name'', ''DocId''], rows = [[Some ''A'', Some ''DOC1'']]\<rparr>)
     ''DocId'' (Some ['' Name''])
   = Inr \<lparr>columns = [''DocId''], rows = [[Some ''DOC1'']]\<rparr>"
  by (simp add: read_sitetracker_csv_def select_columns_def strip_def is_space_def
      cell_at_def)

text \<open>
  C5, amended. For every CSV whose header contains the identifier column and every
  non-empty requested list, the columns that \<open>read_sitetracker_csv\<close> returns are exactly
  the requested names, stripped of surrounding whitespace, that exist in the header
  (empty names are skipped), in the order requested, followed by the identifier column
  when no requested name strips to it; a requested identifier column stays where it was
  requested. Each column holds the cells of the header column of that name and every row
  is kept. When the requested names carry no surrounding whitespace, the result has
  exactly the requested columns that exist in the header and the identifier column.
\<close>

theorem read_sitetracker_csv_columns:
  assumes "docid_col \<in> set (columns dataframe)" and "selected \<noteq> []"
  shows "\<exists>df'. read_sitetracker_csv (Inr dataframe) docid_col (Some selected) = Inr df'
     \<and> columns df'
         = filter (\<lambda>c. c \<in> set (columns dataframe))
             (map strip (filter (\<lambda>c. c \<noteq> []) selected))
           @ (if docid_col \<in> set (map strip (filter (\<lambda>c. c \<noteq> []) selected)) then [] else [docid_col])
     \<and> set (columns df')
         = {strip c |c. c \<in> set selected \<and> c \<noteq> [] \<and> strip c \<in> set (columns dataframe)}
           \<union> {docid_col}
     \<and> length (rows df') = length (rows dataframe)
     \<and> (\<forall>c \<in> set (columns df'). get_column df' c = get_column dataframe c)
     \<and> ((\<forall>c \<in> set selected. strip c = c) \<longrightarrow>
          set (columns df')
            = (set selected \<inter> set (columns dataframe) - {[]}) \<union> {docid_col})"
proof -
  define kept where
    "kept = map strip
       (filter (\<lambda>col. col \<noteq> [] \<and> strip col \<in> set (columns dataframe)) selected)"
  define keep_cols where
    "keep_cols = (if docid_col \<notin> set kept then kept @ [docid_col] else kept)"
  define df' where
    "df' = \<lparr>columns = keep_cols,
            rows = map (\<lambda>r. map (\<lambda>c. cell_at r (index_of c (columns dataframe))) keep_cols)
                     (rows dataframe)\<rparr>"
  have kept_set: "set kept
      = {strip c |c. c \<in> set selected \<and> c \<noteq> [] \<and> strip c \<in> set (columns dataframe)}"
    by (auto simp: kept_def)
  have sub: "set keep_cols \<subseteq> set (columns dataframe)"
    using assms(1) kept_set by (auto simp: keep_cols_def)
  obtain x xs where sel: "selected = x # xs"
    using assms(2) by (cases selected) auto
  have "read_sitetracker_csv (Inr dataframe) docid_col (Some selected)
      = select_columns dataframe keep_cols"
    using assms(1)
    unfolding read_sitetracker_csv_def keep_cols_def kept_def sel
    by (simp add: Let_def)
  then have run: "read_sitetracker_csv (Inr dataframe) docid_col (Some selected) = Inr df'"
    by (simp only: select_columns_present [OF sub] df'_def)
  have cols: "columns df' = keep_cols"
    by (simp add: df'_def)
  have c1: "set (columns df')
      = {strip c |c. c \<in> set selected \<and> c \<noteq> [] \<and> strip c \<in> set (columns dataframe)}
        \<union> {docid_col}"
    using kept_set by (auto simp: cols keep_cols_def)
  have kept_alt: "kept = filter (\<lambda>c. c \<in> set (columns dataframe))
                (map strip (filter (\<lambda>c. c \<noteq> []) selected))"
    by (simp add: kept_def filter_map comp_def conj_commute)
  have requested: "docid_col \<in> set kept \<longleftrightarrow> docid_col \<in> set (map strip (filter (\<lambda>c. c \<noteq> []) selected))"
    using assms(1) kept_set by auto
  have c2: "columns df'
         = filter (\<lambda>c. c \<in> set (columns dataframe))
             (map strip (filter (\<lambda>c. c \<noteq> []) selected))
           @ (if docid_col \<in> set (map strip (filter (\<lambda>c. c \<noteq> []) selected)) then [] else [docid_col])"
    unfolding cols keep_cols_def requested kept_alt [symmetric] by simp
  have c3: "length (rows df') = length (rows dataframe)"
    by (simp add: df'_def)
  have c4: "get_column df' c = get_column dataframe c" if "c \<in> set (columns df')" for c
    using that get_column_select_columns [OF sub, of c] by (simp add: df'_def)
  have c5: "set (columns df')
      = (set selected \<inter> set (columns dataframe) - {[]}) \<union> {docid_col}"
    if st: "\<forall>c \<in> set selected. strip c = c"
  proof -
    have "{strip c |c. c \<in> set selected \<and> c \<noteq> [] \<and> strip c \<in> set (columns dataframe)}
        = set selected \<inter> set (columns dataframe) - {[]}"
      using st by force
    then show ?thesis using c1 by simp
  qed
  have c4': "\<forall>c \<in> set (columns df'). get_column df' c = get_column dataframe c"
    using c4 by (rule ballI)
  have c5': "(\<forall>c \<in> set selected. strip c = c) \<longrightarrow>
          set (columns df')
            = (set selected \<inter> set (columns dataframe) - {[]}) \<union> {docid_col}"
    using c5 by (rule impI)
  show ?thesis
    by (rule exI [of _ df'], intro conjI)
      (fact run, fact c2, fact c1, fact c3, fact c4', fact c5')
qed

theorem read_sitetracker_csv_columns_witness:
  "(\<exists>df'. read_sitetracker_csv
       (Inr \<lparr>columns = [''DocId'', ''Name'', ''Other''],
             rows = [[Some ''DOC1'', Some ''A'', Some ''X''],
                     [Some ''DOC2'', Some ''B'', Some ''Y'']]\<rparr>)
       ''DocId'' (Some [''Name'']) = Inr df'
     \<and> columns df' = [''Name'', ''DocId'']
     \<and> length (rows df') = 2)
   \<and> (\<exists>df'. read_sitetracker_csv
       (Inr \<lparr>columns = [''DocId'', ''Name'', ''Other''],
             rows = [[Some ''DOC1'', Some ''A'', Some ''X''],
                     [Some ''DOC2'', Some ''B'', Some ''Y'']]\<rparr>)
       ''DocId'' (Some [''Other'', '' DocId'', ''Missing'', ''Name'']) = Inr df'
     \<and> columns df' = [''Other'', ''DocId'', ''Name''])"
proof -
  let ?d = "\<lparr>columns = [''DocId'', ''Name'', ''Other''],
             rows = [[Some ''DOC1'', Some ''A'', Some ''X''],
                     [Some ''DOC2'', Some ''B'', Some ''Y'']]\<rparr>"
  have h1: "''DocId'' \<in> set (columns ?d)" by simp
  have h2: "[''Name''] \<noteq> []" by simp
  have h3: "[''Other'', '' DocId'', ''Missing'', ''Name''] \<noteq> []" by simp
  have s: "strip ''Name'' = ''Name''" "strip ''Other'' = ''Other''"
    "strip '' DocId'' = ''DocId''" "strip ''Missing'' = ''Missing''"
    by (simp_all add: strip_def is_space_def)
  obtain df1 where
    r1: "read_sitetracker_csv (Inr ?d) ''DocId'' (Some [''Name'']) = Inr df1"
    and c1: "columns df1
         = filter (\<lambda>c. c \<in> set (columns ?d)) (map strip (filter (\<lambda>c. c \<noteq> []) [''Name'']))
           @ (if ''DocId'' \<in> set (map strip (filter (\<lambda>c. c \<noteq> []) [''Name''])) then [] else [''DocId''])"
    and l1: "length (rows df1) = length (rows ?d)"
    using read_sitetracker_csv_columns [OF h1 h2] by (elim exE conjE) (rule that)
  obtain df2 where
    r2: "read_sitetracker_csv (Inr ?d) ''DocId''
           (Some [''Other'', '' DocId'', ''Missing'', ''Name'']) = Inr df2"
    and c2: "columns df2
         = filter (\<lambda>c. c \<in> set (columns ?d))
             (map strip (filter (\<lambda>c. c \<noteq> []) [''Other'', '' DocId'', ''Missing'', ''Name'']))
           @ (if ''DocId'' \<in> set (map strip (filter (\<lambda>c. c \<noteq> [])
                                [''Other'', '' DocId'', ''Missing'', ''Name'']))
              then [] else [''DocId''])"
    using read_sitetracker_csv_columns [OF h1 h3] by (elim exE conjE) (rule that)
  have e1: "columns df1 = [''Name'', ''DocId'']"
    using c1 by (simp add: s)
  have n1: "length (rows df1) = 2"
    using l1 by simp
  have e2: "columns df2 = [''Other'', ''DocId'', ''Name'']"
    using c2 by (simp add: s)
  have a: "\<exists>df'. read_sitetracker_csv (Inr ?d) ''DocId'' (Some [''Name'']) = Inr df'
     \<and> columns df' = [''Name'', ''DocId''] \<and> length (rows df') = 2"
    by (rule exI [of _ df1], intro conjI) (fact r1, fact e1, fact n1)
  have b: "\<exists>df'. read_sitetracker_csv (Inr ?d) ''DocId''
           (Some [''Other'', '' DocId'', ''Missing'', ''Name'']) = Inr df'
     \<and> columns df' = [''Other'', ''DocId'', ''Name'']"
    by (rule exI [of _ df2], intro conjI) (fact r2, fact e2)
  show ?thesis
    using a b by (rule conjI)
qed

text \<open>
  C6. After filtering the metadata table to the identifier set and dropping duplicate
  identifiers, the result has at most one row per identifier, every kept identifier
  belongs to the identifier set, the identifiers kept are exactly those of the set that
  occur in the table, and each kept row is the first row of the source table that carries
  its identifier.
\<close>

theorem matched_files_first_per_identifier:
  assumes "get_column content_versions ''ContentDocumentId'' = Inr ids"
  shows "\<exists>m keys. matched_files content_versions docid_set = Inr m
           \<and> columns m = columns content_versions
           \<and> get_column m ''ContentDocumentId'' = Inr keys
           \<and> distinct keys
           \<and> (\<forall>k \<in> set keys. \<exists>s. k = Some s \<and> s \<in> docid_set)
           \<and> set keys = {Some s |s. Some s \<in> set ids \<and> s \<in> docid_set}
           \<and> (\<forall>r \<in> set (rows m).
                 find (\<lambda>x. cell_at x (index_of ''ContentDocumentId'' (columns content_versions))
                           = cell_at r (index_of ''ContentDocumentId'' (columns content_versions)))
                   (rows content_versions) = Some r)"
proof -
  define i where "i = index_of ''ContentDocumentId'' (columns content_versions)"
  define f where "f = (\<lambda>r. cell_at r i)"
  define p where "p = (\<lambda>c. case c of None \<Rightarrow> False | Some s \<Rightarrow> s \<in> docid_set)"
  define xs where "xs = filter (\<lambda>x. p (f x)) (rows content_versions)"
  define kept where
    "kept = map fst (filter snd (zip xs (map Not (duplicated_from [] (map f xs)))))"
  define m where "m = content_versions\<lparr>rows := kept\<rparr>"
  have has: "''ContentDocumentId'' \<in> set (columns content_versions)"
    using assms by (auto simp: get_column_def split: if_splits)
  have ids: "ids = map f (rows content_versions)"
    using assms has by (simp add: get_column_def f_def i_def)
  have "isin ids docid_set = map (\<lambda>x. p (f x)) (rows content_versions)"
    by (simp add: isin_def ids p_def comp_def)
  then have filtered: "boolean_mask content_versions (isin ids docid_set)
      = content_versions\<lparr>rows := xs\<rparr>"
    by (simp add: boolean_mask_def xs_def mask_map_filter)
  have col: "get_column (content_versions\<lparr>rows := ys\<rparr>) ''ContentDocumentId''
      = Inr (map f ys)" for ys
    using has by (simp add: get_column_def f_def i_def)
  have "drop_duplicates (content_versions\<lparr>rows := xs\<rparr>) ''ContentDocumentId'' = Inr m"
    by (simp add: drop_duplicates_def col boolean_mask_def duplicated_def m_def kept_def)
  then have run: "matched_files content_versions docid_set = Inr m"
    using assms by (simp add: matched_files_def filtered)
  have c1: "columns m = columns content_versions"
    by (simp add: m_def)
  have c2: "get_column m ''ContentDocumentId'' = Inr (map f kept)"
    using col [of kept] by (simp add: m_def)
  have keys: "distinct (map f kept) \<and> set (map f kept) = f ` set xs"
    using kept_first_keys [of f xs "[]"] by (simp add: kept_def)
  have c3: "distinct (map f kept)"
    using keys by blast
  have px: "p (f x)" if "x \<in> set xs" for x
    using that by (simp add: xs_def)
  have c4: "\<forall>k \<in> set (map f kept). \<exists>s. k = Some s \<and> s \<in> docid_set"
  proof
    fix k assume "k \<in> set (map f kept)"
    then obtain x where "x \<in> set xs" "k = f x"
      using keys by auto
    then have "p k" using px by simp
    then show "\<exists>s. k = Some s \<and> s \<in> docid_set"
      by (cases k) (simp_all add: p_def)
  qed
  have "f ` set xs = {k \<in> set ids. p k}"
    by (auto simp: xs_def ids)
  also have "\<dots> = {Some s |s. Some s \<in> set ids \<and> s \<in> docid_set}"
    by (auto simp: p_def split: option.splits)
  finally have c5: "set (map f kept) = {Some s |s. Some s \<in> set ids \<and> s \<in> docid_set}"
    using keys by simp
  have c6: "\<forall>r \<in> set (rows m).
      find (\<lambda>x. cell_at x i = cell_at r i) (rows content_versions) = Some r"
  proof
    fix r assume "r \<in> set (rows m)"
    then have r: "r \<in> set kept" by (simp add: m_def)
    then have "r \<in> set xs"
      using kept_first_subset [of xs "[]" f] by (auto simp: kept_def)
    then have "p (f r)" by (rule px)
    then have "find (\<lambda>x. f x = f r) (rows content_versions) = find (\<lambda>x. f x = f r) xs"
      unfolding xs_def by (rule find_filter_same_key [symmetric])
    also have "\<dots> = Some r"
      using r unfolding kept_def by (rule kept_first_find)
    finally show "find (\<lambda>x. cell_at x i = cell_at r i) (rows content_versions) = Some r"
      by (simp add: f_def)
  qed
  show ?thesis
    unfolding i_def [symmetric]
    by (rule exI [of _ m], rule exI [of _ "map f kept"], intro conjI)
      (fact run, fact c1, fact c2, fact c3, fact c4, fact c5, fact c6)
qed

theorem matched_files_first_per_identifier_witness:
  "matched_files
     \<lparr>columns = [''ContentDocumentId'', ''Title''],
      rows = [[Some ''D1'', Some ''a''], [Some ''D2'', Some ''b''],
              [Some ''D1'', Some ''c''], [Some ''D3'', Some ''d'']]\<rparr>
     {''D1'', ''D3''}
   = Inr \<lparr>columns = [''ContentDocumentId'', ''Title''],
          rows = [[Some ''D1'', Some ''a''], [Some ''D3'', Some ''d'']]\<rparr>
   \<and> (\<exists>keys. get_column
          \<lparr>columns = [''ContentDocumentId'', ''Title''],
           rows = [[Some ''D1'', Some ''a''], [Some ''D3'', Some ''d'']]\<rparr>
          ''ContentDocumentId'' = Inr keys \<and> distinct keys)"
proof -
  let ?cv = "\<lparr>columns = [''ContentDocumentId'', ''Title''],
      rows = [[Some ''D1'', Some ''a''], [Some ''D2'', Some ''b''],
              [Some ''D1'', Some ''c''], [Some ''D3'', Some ''d'']]\<rparr>"
  let ?m = "\<lparr>columns = [''ContentDocumentId'', ''Title''],
          rows = [[Some ''D1'', Some ''a''], [Some ''D3'', Some ''d'']]\<rparr>"
  have g: "get_column ?cv ''ContentDocumentId''
      = Inr [Some ''D1'', Some ''D2'', Some ''D1'', Some ''D3'']"
    by (simp add: get_column_def cell_at_def)
  have e: "matched_files ?cv {''D1'', ''D3''} = Inr ?m"
    by (simp add: matched_files_def g isin_def boolean_mask_def drop_duplicates_def
        get_column_def cell_at_def duplicated_def)
  obtain m keys where
    r: "matched_files ?cv {''D1'', ''D3''} = Inr m"
    and k: "get_column m ''ContentDocumentId'' = Inr keys"
    and d: "distinct keys"
    using matched_files_first_per_identifier [OF g, of "{''D1'', ''D3''}"]
    by (elim exE conjE) (rule that)
  have "m = ?m" using r e by simp
  then have "\<exists>keys. get_column ?m ''ContentDocumentId'' = Inr keys \<and> distinct keys"
    using k d by (intro exI [of _ keys]) simp
  then show ?thesis using e by (rule conjI [rotated])
qed

text \<open>
  C1. For every local table and every metadata table with at most one row per identifier
  (no value of its \<open>ContentDocumentId\<close> column occurs twice), the table that
  \<open>merge_site_tracker_and_files\<close> returns has exactly as many rows as the local table, its
  first columns are the local columns, and under every local label it carries the local
  column itself, row for row: row \<open>i\<close> of the result is row \<open>i\<close> of the local table with the
  metadata cells after it, so no local row is dropped, repeated or moved. The one local
  column that the function may overwrite is a column that is itself named
  \<open>SiteTrackerAttachmentUrl\<close>.
\<close>

theorem merge_preserves_row_count:
  assumes "merge_site_tracker_and_files site_tracker_df files_df docid_col instance_url
           = Inr merged"
    and "get_column files_df ''ContentDocumentId'' = Inr keys"
    and "distinct keys"
  shows "length (rows merged) = length (rows site_tracker_df)
       \<and> take (length (columns site_tracker_df)) (columns merged) = columns site_tracker_df
       \<and> (\<forall>c \<in> set (columns site_tracker_df). c \<noteq> ''SiteTrackerAttachmentUrl'' \<longrightarrow>
             get_column merged c = get_column site_tracker_df c)"
proof -
  obtain joined where
    m: "merge_left site_tracker_df files_df docid_col ''ContentDocumentId'' [] ''_File''
        = Inr joined"
    using assms(1) by (cases "merge_left site_tracker_df files_df docid_col
        ''ContentDocumentId'' [] ''_File''") (simp_all add: merge_site_tracker_and_files_def)
  have j: "joined = \<lparr>columns =
                  overlap_rename (columns site_tracker_df)
                    (right_labels files_df docid_col ''ContentDocumentId'') []
                  @ overlap_rename (right_labels files_df docid_col ''ContentDocumentId'')
                      (columns site_tracker_df) ''_File'',
               rows = merge_rows site_tracker_df files_df docid_col ''ContentDocumentId''\<rparr>"
    using m by (auto simp: merge_left_def split: if_splits)
  have has: "''ContentDocumentId'' \<in> set (columns files_df)"
    using assms(2) by (auto simp: get_column_def split: if_splits)
  have keys: "keys = map (\<lambda>r. cell_at r (index_of ''ContentDocumentId'' (columns files_df)))
                       (rows files_df)"
    using assms(2) has by (simp add: get_column_def)
  have d: "distinct (map (\<lambda>r. cell_at r (index_of ''ContentDocumentId'' (columns files_df)))
                       (rows files_df))"
    using assms(3) unfolding keys .
  have cols: "columns joined = columns site_tracker_df
      @ overlap_rename (right_labels files_df docid_col ''ContentDocumentId'')
          (columns site_tracker_df) ''_File''"
    by (simp add: j overlap_rename_empty_suffix)
  have len: "length (rows joined) = length (rows site_tracker_df)"
    using d by (simp add: j length_merge_rows)
  have pre: "take (length (columns site_tracker_df)) (columns joined) = columns site_tracker_df"
    by (simp add: cols)
  have col: "get_column joined c = get_column site_tracker_df c"
    if "c \<in> set (columns site_tracker_df)" for c
    using m d that by (rule get_column_merge_left)
  show ?thesis
  proof (cases "''Id'' \<in> set (columns joined)")
    case True
    then obtain ids where ids: "get_column joined ''Id'' = Inr ids"
      by (simp add: get_column_def)
    define urls where "urls = map (attachment_url instance_url) ids"
    have ul: "length urls = length (rows joined)"
      using length_get_column [OF ids] by (simp add: urls_def)
    have merged: "merged = set_column joined ''SiteTrackerAttachmentUrl'' urls"
      using assms(1) True ids by (simp add: merge_site_tracker_and_files_def m urls_def)
    have c1: "length (rows merged) = length (rows site_tracker_df)"
      unfolding merged using ul len by (simp add: length_rows_set_column)
    have "take (length (columns joined)) (columns merged) = columns joined"
      unfolding merged by (rule columns_set_column_prefix)
    then have "take (length (columns site_tracker_df))
                 (take (length (columns joined)) (columns merged))
               = take (length (columns site_tracker_df)) (columns joined)"
      by simp
    then have c2: "take (length (columns site_tracker_df)) (columns merged)
                   = columns site_tracker_df"
      using pre by (simp add: cols min_def)
    have c3: "\<forall>c \<in> set (columns site_tracker_df). c \<noteq> ''SiteTrackerAttachmentUrl'' \<longrightarrow>
             get_column merged c = get_column site_tracker_df c"
    proof (intro ballI impI)
      fix c
      assume c: "c \<in> set (columns site_tracker_df)" and n: "c \<noteq> ''SiteTrackerAttachmentUrl''"
      have cj: "c \<in> set (columns joined)"
        using c by (simp add: cols)
      have "get_column merged c = get_column joined c"
        unfolding merged using ul cj n by (rule get_set_column_other)
      then show "get_column merged c = get_column site_tracker_df c"
        by (simp only: col [OF c])
    qed
    show ?thesis
      by (intro conjI) (fact c1, fact c2, fact c3)
  next
    case False
    then have merged: "merged = joined"
      using assms(1) by (simp add: merge_site_tracker_and_files_def m)
    have c3: "\<forall>c \<in> set (columns site_tracker_df). c \<noteq> ''SiteTrackerAttachmentUrl'' \<longrightarrow>
             get_column merged c = get_column site_tracker_df c"
      unfolding merged using col by (intro ballI impI)
    show ?thesis
      unfolding merged using len pre c3 [unfolded merged] by (intro conjI)
  qed
qed

theorem merge_preserves_row_count_witness:
  "\<exists>merged. merge_site_tracker_and_files
       \<lparr>columns = [''Id'', ''DocId''],
        rows = [[Some ''ATT1'', Some ''DOC1''], [Some ''ATT2'', Some ''DOC9''],
                [None, Some ''DOC1'']]\<rparr>
       \<lparr>columns = [''ContentDocumentId'', ''Title''],
        rows = [[Some ''DOC1'', Some ''File 1''], [Some ''DOC2'', Some ''File 2'']]\<rparr>
       ''DocId'' ''http://example.com'' = Inr merged
     \<and> length (rows merged) = 3
     \<and> take 2 (columns merged) = [''Id'', ''DocId'']
     \<and> get_column merged ''Id'' = Inr [Some ''ATT1'', Some ''ATT2'', None]
     \<and> get_column merged ''DocId'' = Inr [Some ''DOC1'', Some ''DOC9'', Some ''DOC1'']"
proof -
  let ?l = "\<lparr>columns = [''Id'', ''DocId''],
        rows = [[Some ''ATT1'', Some ''DOC1''], [Some ''ATT2'', Some ''DOC9''],
                [None, Some ''DOC1'']]\<rparr>"
  let ?r = "\<lparr>columns = [''ContentDocumentId'', ''Title''],
        rows = [[Some ''DOC1'', Some ''File 1''], [Some ''DOC2'', Some ''File 2'']]\<rparr>"
  let ?m = "\<lparr>columns = [''Id'', ''DocId'', ''ContentDocumentId'', ''Title'',
                        ''SiteTrackerAttachmentUrl''],
        rows = [[Some ''ATT1'', Some ''DOC1'', Some ''DOC1'', Some ''File 1'',
                 Some ''http://example.com/lightning/r/sitetracker__Attachment__c/ATT1/view''],
                [Some ''ATT2'', Some ''DOC9'', None, None,
                 Some ''http://example.com/lightning/r/sitetracker__Attachment__c/ATT2/view''],
                [None, Some ''DOC1'', Some ''DOC1'', Some ''File 1'', None]]\<rparr>"
  have h1: "merge_site_tracker_and_files ?l ?r ''DocId'' ''http://example.com'' = Inr ?m"
    by (simp add: merge_site_tracker_and_files_def merge_left_def label_clashes_def
        right_labels_def suffix_dups_def overlap_rename_def duplicated_def merge_rows_def
        joined_rows_for_def right_cells_def fit_def cell_at_def get_column_def
        set_column_def attachment_url_def)
  have h2: "get_column ?r ''ContentDocumentId'' = Inr [Some ''DOC1'', Some ''DOC2'']"
    by (simp add: get_column_def cell_at_def)
  have h3: "distinct [Some ''DOC1'', Some ''DOC2'']" by simp
  note t = merge_preserves_row_count [OF h1 h2 h3]
  have n: "length (rows ?m) = length (rows ?l)"
    using t by (elim conjE)
  have p: "take (length (columns ?l)) (columns ?m) = columns ?l"
    using t by (elim conjE)
  have a: "\<forall>c \<in> set (columns ?l). c \<noteq> ''SiteTrackerAttachmentUrl'' \<longrightarrow>
             get_column ?m c = get_column ?l c"
    using t by (elim conjE)
  have n3: "length (rows ?m) = 3"
    using n by simp
  have p2: "take 2 (columns ?m) = [''Id'', ''DocId'']"
    using p by simp
  have "get_column ?m ''Id'' = get_column ?l ''Id''"
    using a by (drule_tac bspec [of _ _ "''Id''"]) simp_all
  then have g1: "get_column ?m ''Id'' = Inr [Some ''ATT1'', Some ''ATT2'', None]"
    by (simp add: get_column_def cell_at_def)
  have "get_column ?m ''DocId'' = get_column ?l ''DocId''"
    using a by (drule_tac bspec [of _ _ "''DocId''"]) simp_all
  then have g2: "get_column ?m ''DocId'' = Inr [Some ''DOC1'', Some ''DOC9'', Some ''DOC1'']"
    by (simp add: get_column_def cell_at_def)
  show ?thesis
    by (rule exI [of _ ?m], intro conjI) (fact h1, fact n3, fact p2, fact g1, fact g2)
qed

text \<open>
  C7. When the local table has a column named exactly \<open>Id\<close>, the merged result has a
  \<open>SiteTrackerAttachmentUrl\<close> column whose value on each row is
  \<open><base>/lightning/r/sitetracker__Attachment__c/<Id>/view\<close> for the row's \<open>Id\<close>, and the
  missing value itself, not a string, on every row whose \<open>Id\<close> is missing. The \<open>Id\<close> values
  of the merged rows are those of the local rows, and row for row the same when the
  metadata identifiers are distinct.
\<close>

theorem merge_adds_attachment_url:
  assumes "''Id'' \<in> set (columns site_tracker_df)"
    and "merge_site_tracker_and_files site_tracker_df files_df docid_col instance_url
         = Inr merged"
  shows "\<exists>ids local_ids.
           get_column site_tracker_df ''Id'' = Inr local_ids
         \<and> get_column merged ''Id'' = Inr ids
         \<and> set ids \<subseteq> set local_ids
         \<and> (\<forall>keys. get_column files_df ''ContentDocumentId'' = Inr keys \<and> distinct keys
               \<longrightarrow> ids = local_ids)
         \<and> get_column merged ''SiteTrackerAttachmentUrl''
             = Inr (map (\<lambda>a. case a of
                               Some s \<Rightarrow> Some (instance_url
                                  @ ''/lightning/r/sitetracker__Attachment__c/'' @ s @ ''/view'')
                             | None \<Rightarrow> None) ids)"
proof -
  define joined where
    "joined = \<lparr>columns =
                  overlap_rename (columns site_tracker_df)
                    (right_labels files_df docid_col ''ContentDocumentId'') ''''
                  @ overlap_rename (right_labels files_df docid_col ''ContentDocumentId'')
                      (columns site_tracker_df) ''_File'',
               rows = merge_rows site_tracker_df files_df docid_col ''ContentDocumentId''\<rparr>"
  define j where "j = index_of ''Id'' (columns site_tracker_df)"
  define ids where "ids = map (\<lambda>r. cell_at r j) (rows joined)"
  define local_ids where "local_ids = map (\<lambda>r. cell_at r j) (rows site_tracker_df)"
  define urls where "urls = map (attachment_url instance_url) ids"
  have j: "j < length (columns site_tracker_df)"
    unfolding j_def using assms(1) by (rule index_of_less)
  have m: "merge_left site_tracker_df files_df docid_col ''ContentDocumentId'' '''' ''_File''
      = Inr joined"
    using assms(2)
    by (auto simp: merge_site_tracker_and_files_def merge_left_def joined_def
        split: if_splits)
  have cols: "columns joined = columns site_tracker_df
      @ overlap_rename (right_labels files_df docid_col ''ContentDocumentId'')
          (columns site_tracker_df) ''_File''"
    by (simp add: joined_def overlap_rename_empty_suffix)
  have has: "''Id'' \<in> set (columns joined)"
    using assms(1) by (simp add: cols)
  have jid: "get_column joined ''Id'' = Inr ids"
    using has assms(1) by (simp add: get_column_def ids_def j_def cols index_of_append_old)
  have merged: "merged = set_column joined ''SiteTrackerAttachmentUrl'' urls"
    using assms(2) has jid by (simp add: merge_site_tracker_and_files_def m urls_def)
  have len: "length urls = length (rows joined)"
    by (simp add: urls_def ids_def)
  have c1: "get_column site_tracker_df ''Id'' = Inr local_ids"
    using assms(1) by (simp add: get_column_def local_ids_def j_def)
  have c2: "get_column merged ''Id'' = Inr ids"
    unfolding merged using get_set_column_other [OF len has, of "''SiteTrackerAttachmentUrl''"] jid
    by simp
  have c3: "set ids \<subseteq> set local_ids"
    unfolding ids_def local_ids_def using merge_rows_left_cells [OF j] by (simp add: joined_def)
  have c4: "\<forall>keys. get_column files_df ''ContentDocumentId'' = Inr keys \<and> distinct keys
               \<longrightarrow> ids = local_ids"
  proof (intro allI impI)
    fix keys
    assume k: "get_column files_df ''ContentDocumentId'' = Inr keys \<and> distinct keys"
    then have "''ContentDocumentId'' \<in> set (columns files_df)"
      by (auto simp: get_column_def split: if_splits)
    then have "distinct (map (\<lambda>r. cell_at r (index_of ''ContentDocumentId'' (columns files_df)))
                  (rows files_df))"
      using k by (auto simp: get_column_def)
    then show "ids = local_ids"
      unfolding ids_def local_ids_def using merge_rows_left_column [OF _ j]
      by (simp add: joined_def)
  qed
  have c5: "get_column merged ''SiteTrackerAttachmentUrl''
             = Inr (map (\<lambda>a. case a of
                               Some s \<Rightarrow> Some (instance_url
                                  @ ''/lightning/r/sitetracker__Attachment__c/'' @ s @ ''/view'')
                             | None \<Rightarrow> None) ids)"
  proof -
    have "urls = map (\<lambda>a. case a of
                               Some s \<Rightarrow> Some (instance_url
                                  @ ''/lightning/r/sitetracker__Attachment__c/'' @ s @ ''/view'')
                             | None \<Rightarrow> None) ids"
      unfolding urls_def attachment_url_def [abs_def] by (rule refl)
    then show ?thesis
      unfolding merged using get_set_column [OF len, of "''SiteTrackerAttachmentUrl''"]
      by (simp only:)
  qed
  show ?thesis
    by (rule exI [of _ ids], rule exI [of _ local_ids], intro conjI)
      (fact c1, fact c2, fact c3, fact c4, fact c5)
qed

theorem merge_adds_attachment_url_witness:
  "\<exists>merged. merge_site_tracker_and_files
       \<lparr>columns = [''Id'', ''DocId''],
        rows = [[Some ''ATT1'', Some ''DOC1''], [None, Some ''DOC9'']]\<rparr>
       \<lparr>columns = [''ContentDocumentId'', ''Title''],
        rows = [[Some ''DOC1'', Some ''File 1'']]\<rparr>
       ''DocId'' ''http://example.com'' = Inr merged
     \<and> get_column merged ''SiteTrackerAttachmentUrl''
         = Inr [Some ''http://example.com/lightning/r/sitetracker__Attachment__c/ATT1/view'',
                None]
     \<and> get_column merged ''Title'' = Inr [Some ''File 1'', None]"
proof -
  let ?l = "\<lparr>columns = [''Id'', ''DocId''],
        rows = [[Some ''ATT1'', Some ''DOC1''], [None, Some ''DOC9'']]\<rparr>"
  let ?r = "\<lparr>columns = [''ContentDocumentId'', ''Title''],
        rows = [[Some ''DOC1'', Some ''File 1'']]\<rparr>"
  let ?m = "\<lparr>columns = [''Id'', ''DocId'', ''ContentDocumentId'', ''Title'',
                        ''SiteTrackerAttachmentUrl''],
        rows = [[Some ''ATT1'', Some ''DOC1'', Some ''DOC1'', Some ''File 1'',
                 Some ''http://example.com/lightning/r/sitetracker__Attachment__c/ATT1/view''],
                [None, Some ''DOC9'', None, None, None]]\<rparr>"
  have h1: "''Id'' \<in> set (columns ?l)" by simp
  have e: "merge_site_tracker_and_files ?l ?r ''DocId'' ''http://example.com'' = Inr ?m"
    by (simp add: merge_site_tracker_and_files_def merge_left_def label_clashes_def
        right_labels_def suffix_dups_def overlap_rename_def duplicated_def merge_rows_def
        joined_rows_for_def right_cells_def fit_def cell_at_def get_column_def
        set_column_def attachment_url_def)
  obtain ids where
    i: "get_column ?m ''Id'' = Inr ids"
    and u: "get_column ?m ''SiteTrackerAttachmentUrl''
             = Inr (map (\<lambda>a. case a of
                               Some s \<Rightarrow> Some (''http://example.com''
                                  @ ''/lightning/r/sitetracker__Attachment__c/'' @ s @ ''/view'')
                             | None \<Rightarrow> None) ids)"
    using merge_adds_attachment_url [OF h1 e] by (elim exE conjE) (rule that)
  have "ids = [Some ''ATT1'', None]"
    using i by (simp add: get_column_def cell_at_def)
  then have "get_column ?m ''SiteTrackerAttachmentUrl''
         = Inr [Some ''http://example.com/lightning/r/sitetracker__Attachment__c/ATT1/view'',
                None]"
    using u by simp
  moreover have "get_column ?m ''Title'' = Inr [Some ''File 1'', None]"
    by (simp add: get_column_def cell_at_def)
  ultimately show ?thesis using e by (intro exI [of _ ?m] conjI)
qed

text \<open>
  C3. \<open>bulk2_wait_job\<close> returns the status payload only when the job state is
  \<open>JobComplete\<close>; on \<open>Failed\<close> or \<open>Aborted\<close> it raises \<open>RuntimeError\<close> with a message that
  embeds the state and the rendering of the whole payload; every non-terminal state is
  followed by a sleep of 3 and another poll, however many of them come: after any number
  of non-terminal polls the loop is still polling.
\<close>

theorem bulk2_wait_job_terminal_states:
  assumes "\<forall>p \<in> set polls. pending_poll p"
    and "raise_for_status r = None"
    and "json r = Some info"
  shows "(map_of info ''state'' = Some (JString ''JobComplete'') \<longrightarrow>
            bulk2_wait_job str_of_info (polls @ r # rs)
              = (Returned info, replicate (length polls) 3))
       \<and> (\<forall>state \<in> {''Failed'', ''Aborted''}.
            map_of info ''state'' = Some (JString state) \<longrightarrow>
            bulk2_wait_job str_of_info (polls @ r # rs)
              = (Raised (RuntimeError (''Bulk job ended in state '' @ state @ '': ''
                                        @ str_of_info info)),
                 replicate (length polls) 3))
       \<and> bulk2_wait_job str_of_info polls = (Waiting, replicate (length polls) 3)
       \<and> (\<forall>script payload sleeps.
            bulk2_wait_job str_of_info script = (Returned payload, sleeps) \<longrightarrow>
            map_of payload ''state'' = Some (JString ''JobComplete''))"
proof (intro conjI impI ballI allI)
  assume "map_of info ''state'' = Some (JString ''JobComplete'')"
  then have "bulk2_wait_job str_of_info (r # rs) = (Returned info, [])"
    using assms(2,3) by simp
  then show "bulk2_wait_job str_of_info (polls @ r # rs)
      = (Returned info, replicate (length polls) 3)"
    using bulk2_wait_job_pending_prefix [OF assms(1), of str_of_info "r # rs"] by simp
next
  fix state
  assume "state \<in> {''Failed'', ''Aborted''}"
    and "map_of info ''state'' = Some (JString state)"
  then have "bulk2_wait_job str_of_info (r # rs)
      = (Raised (RuntimeError (''Bulk job ended in state '' @ state @ '': ''
                                @ str_of_info info)), [])"
    using assms(2,3) by auto
  then show "bulk2_wait_job str_of_info (polls @ r # rs)
      = (Raised (RuntimeError (''Bulk job ended in state '' @ state @ '': ''
                                @ str_of_info info)), replicate (length polls) 3)"
    using bulk2_wait_job_pending_prefix [OF assms(1), of str_of_info "r # rs"] by simp
next
  show "bulk2_wait_job str_of_info polls = (Waiting, replicate (length polls) 3)"
    using bulk2_wait_job_pending_prefix [OF assms(1), of str_of_info "[]"] by simp
next
  fix script payload sleeps
  assume "bulk2_wait_job str_of_info script = (Returned payload, sleeps)"
  then show "map_of payload ''state'' = Some (JString ''JobComplete'')"
    by (rule bulk2_wait_job_returns_complete)
qed

theorem bulk2_wait_job_terminal_states_witness:
  "bulk2_wait_job (\<lambda>info. ''{..}'')
     [\<lparr>status_code = 200, response_text = '''', headers = [],
       json = Some [(''id'', JString ''750''), (''state'', JString ''InProgress'')]\<rparr>,
      \<lparr>status_code = 200, response_text = '''', headers = [],
       json = Some [(''id'', JString ''750''), (''state'', JString ''JobComplete'')]\<rparr>]
   = (Returned [(''id'', JString ''750''), (''state'', JString ''JobComplete'')], [3])
   \<and> bulk2_wait_job (\<lambda>info. ''{..}'')
     [\<lparr>status_code = 200, response_text = '''', headers = [],
       json = Some [(''id'', JString ''750''), (''state'', JString ''InProgress'')]\<rparr>,
      \<lparr>status_code = 200, response_text = '''', headers = [],
       json = Some [(''state'', JString ''Failed'')]\<rparr>]
   = (Raised (RuntimeError ''Bulk job ended in state Failed: {..}''), [3])"
proof -
  let ?p = "\<lparr>status_code = 200, response_text = '''', headers = [],
       json = Some [(''id'', JString ''750''), (''state'', JString ''InProgress'')]\<rparr>"
  let ?ok = "[(''id'', JString ''750''), (''state'', JString ''JobComplete'')]"
  let ?c = "\<lparr>status_code = 200, response_text = '''', headers = [], json = Some ?ok\<rparr>"
  let ?bad = "[(''state'', JString ''Failed'')]"
  let ?f = "\<lparr>status_code = 200, response_text = '''', headers = [], json = Some ?bad\<rparr>"
  have h1: "\<forall>p \<in> set [?p]. pending_poll p"
    by (simp add: pending_poll_def raise_for_status_def)
  have h2: "raise_for_status ?c = None" "raise_for_status ?f = None"
    by (simp_all add: raise_for_status_def)
  have h3: "json ?c = Some ?ok" "json ?f = Some ?bad"
    by simp_all
  have a: "map_of ?ok ''state'' = Some (JString ''JobComplete'')" by simp
  have b: "map_of ?bad ''state'' = Some (JString ''Failed'')" by simp
  have "bulk2_wait_job (\<lambda>info. ''{..}'') ([?p] @ ?c # [])
      = (Returned ?ok, replicate (length [?p]) 3)"
    using bulk2_wait_job_terminal_states [OF h1 h2(1) h3(1), of "\<lambda>info. ''{..}''" "[]"] a
    by (elim conjE) (erule mp)
  moreover have "bulk2_wait_job (\<lambda>info. ''{..}'') ([?p] @ ?f # [])
      = (Raised (RuntimeError (''Bulk job ended in state '' @ ''Failed'' @ '': '' @ ''{..}'')),
         replicate (length [?p]) 3)"
    using bulk2_wait_job_terminal_states [OF h1 h2(2) h3(2), of "\<lambda>info. ''{..}''" "[]"] b
    by (elim conjE) (drule bspec [of _ _ "''Failed''"], simp, erule mp)
  ultimately show ?thesis by simp
qed

text \<open>
  C2. After a page that the loop takes in, the pagination loop issues another request if
  and only if the response carried the \<open>Sforce-Locator\<close> header, under any letter case of
  its name, with a value that is present, non-empty and not \<open>null\<close> in any letter case,
  and that request carries the cursor as its \<open>locator\<close> parameter; when the header is
  absent, empty or \<open>null\<close> the loop ends at once and returns, with no further request.
\<close>

theorem fetch_loop_continues_iff_cursor:
  assumes "page_accepted read_csv r"
  shows "(1 < length (snd (fetch_loop read_csv max_records loc frames (r # rs)))
            \<longleftrightarrow> (\<exists>c. headers_get (headers r) ''Sforce-Locator'' = Some c \<and> c \<noteq> []
                      \<and> lower c \<noteq> ''null''))
       \<and> (1 < length (snd (fetch_loop read_csv max_records loc frames (r # rs)))
            \<longrightarrow> snd (fetch_loop read_csv max_records loc frames (r # rs)) ! 1
                 = \<lparr>maxRecords = max_records,
                    locator = headers_get (headers r) ''Sforce-Locator''\<rparr>)
       \<and> (\<not> (\<exists>c. headers_get (headers r) ''Sforce-Locator'' = Some c \<and> c \<noteq> []
                  \<and> lower c \<noteq> ''null'')
            \<longrightarrow> (\<exists>table. fetch_loop read_csv max_records loc frames (r # rs)
                           = (Returned table, [request_params max_records loc])))"
proof (cases "cursor_done (headers_get (headers r) ''Sforce-Locator'')")
  case True
  have run: "fetch_loop read_csv max_records loc frames (r # rs)
      = (Returned (if frames @ page_frames read_csv [r] = [] then empty_dataframe
                   else concat_frames (frames @ page_frames read_csv [r])),
         [request_params max_records loc])"
    using fetch_loop_step_done [OF assms True] by (simp only: concat_result_returned)
  have no: "\<not> (\<exists>c. headers_get (headers r) ''Sforce-Locator'' = Some c \<and> c \<noteq> []
                  \<and> lower c \<noteq> ''null'')"
    using True by (rule cursor_done_iff [THEN iffD1])
  have one: "\<not> 1 < length (snd (fetch_loop read_csv max_records loc frames (r # rs)))"
    by (simp only: run) simp
  have a: "1 < length (snd (fetch_loop read_csv max_records loc frames (r # rs)))
            \<longleftrightarrow> (\<exists>c. headers_get (headers r) ''Sforce-Locator'' = Some c \<and> c \<noteq> []
                      \<and> lower c \<noteq> ''null'')"
    using no one by (simp only: simp_thms not_False_eq_True not_True_eq_False)
  have b: "1 < length (snd (fetch_loop read_csv max_records loc frames (r # rs)))
            \<longrightarrow> snd (fetch_loop read_csv max_records loc frames (r # rs)) ! 1
                 = \<lparr>maxRecords = max_records,
                    locator = headers_get (headers r) ''Sforce-Locator''\<rparr>"
    using one by (simp only: simp_thms not_False_eq_True not_True_eq_False)
  have c: "\<not> (\<exists>c. headers_get (headers r) ''Sforce-Locator'' = Some c \<and> c \<noteq> []
                  \<and> lower c \<noteq> ''null'')
            \<longrightarrow> (\<exists>table. fetch_loop read_csv max_records loc frames (r # rs)
                           = (Returned table, [request_params max_records loc]))"
    by (rule impI, rule exI, rule run)
  show ?thesis
    by (intro conjI) (fact a, fact b, fact c)
next
  case False
  then obtain c where c: "headers_get (headers r) ''Sforce-Locator'' = Some c" "c \<noteq> []"
      "lower c \<noteq> ''null''"
    by (auto simp only: cursor_done_iff)
  obtain reqs where reqs: "snd (fetch_loop read_csv max_records
        (headers_get (headers r) ''Sforce-Locator'') (frames @ page_frames read_csv [r]) rs)
      = request_params max_records (headers_get (headers r) ''Sforce-Locator'') # reqs"
    using fetch_loop_first_request by blast
  have snd_run: "snd (fetch_loop read_csv max_records loc frames (r # rs))
      = request_params max_records loc
        # request_params max_records (headers_get (headers r) ''Sforce-Locator'') # reqs"
  proof -
    obtain out reqs0 where pr: "fetch_loop read_csv max_records
        (headers_get (headers r) ''Sforce-Locator'') (frames @ page_frames read_csv [r]) rs
        = (out, reqs0)"
      by (rule prod.exhaust)
    have "reqs0 = request_params max_records (headers_get (headers r) ''Sforce-Locator'') # reqs"
      using reqs by (simp only: pr snd_conv)
    then show ?thesis
      by (simp only: fetch_loop_step_live [OF assms False] pr prod.case snd_conv)
  qed
  have p: "request_params max_records (headers_get (headers r) ''Sforce-Locator'')
      = \<lparr>maxRecords = max_records, locator = headers_get (headers r) ''Sforce-Locator''\<rparr>"
    using c by (simp add: request_params_def)
  have more: "1 < length (snd (fetch_loop read_csv max_records loc frames (r # rs)))"
    by (simp only: snd_run) simp
  have second: "snd (fetch_loop read_csv max_records loc frames (r # rs)) ! 1
      = \<lparr>maxRecords = max_records, locator = headers_get (headers r) ''Sforce-Locator''\<rparr>"
    by (simp only: snd_run p) simp
  have yes: "\<exists>c. headers_get (headers r) ''Sforce-Locator'' = Some c \<and> c \<noteq> []
                  \<and> lower c \<noteq> ''null''"
    using c by blast
  have a: "1 < length (snd (fetch_loop read_csv max_records loc frames (r # rs)))
            \<longleftrightarrow> (\<exists>c. headers_get (headers r) ''Sforce-Locator'' = Some c \<and> c \<noteq> []
                      \<and> lower c \<noteq> ''null'')"
    using more yes by (simp only: simp_thms not_False_eq_True not_True_eq_False)
  have b: "1 < length (snd (fetch_loop read_csv max_records loc frames (r # rs)))
            \<longrightarrow> snd (fetch_loop read_csv max_records loc frames (r # rs)) ! 1
                 = \<lparr>maxRecords = max_records,
                    locator = headers_get (headers r) ''Sforce-Locator''\<rparr>"
    by (rule impI) (rule second)
  have c: "\<not> (\<exists>c. headers_get (headers r) ''Sforce-Locator'' = Some c \<and> c \<noteq> []
                  \<and> lower c \<noteq> ''null'')
            \<longrightarrow> (\<exists>table. fetch_loop read_csv max_records loc frames (r # rs)
                           = (Returned table, [request_params max_records loc]))"
    using yes by (simp only: simp_thms not_False_eq_True not_True_eq_False)
  show ?thesis
    by (intro conjI) (fact a, fact b, fact c)
qed

theorem fetch_loop_continues_iff_cursor_witness:
  "1 < length (snd (fetch_loop (\<lambda>s. Inr \<lparr>columns = [''Id''], rows = [[Some s]]\<rparr>) 50000 None []
        [\<lparr>status_code = 200, response_text = ''a'',
          headers = [(''sforce-locator'', ''abc'')], json = None\<rparr>,
         \<lparr>status_code = 200, response_text = ''b'',
          headers = [(''Sforce-Locator'', ''NULL'')], json = None\<rparr>]))
   \<and> snd (fetch_loop (\<lambda>s. Inr \<lparr>columns = [''Id''], rows = [[Some s]]\<rparr>) 50000 None []
        [\<lparr>status_code = 200, response_text = ''a'',
          headers = [(''sforce-locator'', ''abc'')], json = None\<rparr>,
         \<lparr>status_code = 200, response_text = ''b'',
          headers = [(''Sforce-Locator'', ''NULL'')], json = None\<rparr>]) ! 1
       = \<lparr>maxRecords = 50000, locator = Some ''abc''\<rparr>
   \<and> (\<exists>table. fetch_loop (\<lambda>s. Inr \<lparr>columns = [''Id''], rows = [[Some s]]\<rparr>) 50000
          (Some ''abc'') []
          [\<lparr>status_code = 200, response_text = ''b'',
            headers = [(''Sforce-Locator'', ''NULL'')], json = None\<rparr>]
        = (Returned table, [\<lparr>maxRecords = 50000, locator = Some ''abc''\<rparr>]))"
proof -
  let ?rc = "\<lambda>s. Inr \<lparr>columns = [''Id''], rows = [[Some s]]\<rparr> :: error + dataframe"
  let ?r1 = "\<lparr>status_code = 200, response_text = ''a'',
          headers = [(''sforce-locator'', ''abc'')], json = None\<rparr>"
  let ?r2 = "\<lparr>status_code = 200, response_text = ''b'',
          headers = [(''Sforce-Locator'', ''NULL'')], json = None\<rparr>"
  have h1: "page_accepted ?rc ?r1" and h2: "page_accepted ?rc ?r2"
    by (simp_all add: page_accepted_def raise_for_status_def)
  have live: "\<exists>c. headers_get (headers ?r1) ''Sforce-Locator'' = Some c \<and> c \<noteq> []
      \<and> lower c \<noteq> ''null''"
    by (simp add: headers_get_def lower_def lower_char_def)
  have dead: "\<not> (\<exists>c. headers_get (headers ?r2) ''Sforce-Locator'' = Some c \<and> c \<noteq> []
      \<and> lower c \<noteq> ''null'')"
    by (simp add: headers_get_def lower_def lower_char_def)
  note t1 = fetch_loop_continues_iff_cursor [OF h1, of 50000 None "[]" "[?r2]"]
  note t2 = fetch_loop_continues_iff_cursor [OF h2, of 50000 "Some ''abc''" "[]" "[]"]
  have a: "1 < length (snd (fetch_loop ?rc 50000 None [] [?r1, ?r2]))"
    using t1 live by (elim conjE) (erule iffD2)
  have b: "snd (fetch_loop ?rc 50000 None [] [?r1, ?r2]) ! 1
      = \<lparr>maxRecords = 50000, locator = headers_get (headers ?r1) ''Sforce-Locator''\<rparr>"
    using t1 a by (elim conjE) (erule mp)
  have c: "\<exists>table. fetch_loop ?rc 50000 (Some ''abc'') [] [?r2]
      = (Returned table, [request_params 50000 (Some ''abc'')])"
    using t2 dead by (elim conjE) (erule mp)
  have p: "request_params 50000 (Some ''abc'') = \<lparr>maxRecords = 50000, locator = Some ''abc''\<rparr>"
    by (simp add: request_params_def)
  have b': "snd (fetch_loop ?rc 50000 None [] [?r1, ?r2]) ! 1
      = \<lparr>maxRecords = 50000, locator = Some ''abc''\<rparr>"
    using b by (simp add: headers_get_def lower_def lower_char_def)
  show ?thesis
    using a b' c unfolding p by (intro conjI)
qed

text \<open>
  C8. When the loop runs through its pages and ends at a page whose cursor header is
  absent, empty or \<open>null\<close>, \<open>bulk2_fetch_results\<close> returns the concatenation, in arrival
  order, of the parsed bodies of all pages with a non-blank body, losing no row; when no
  page had a body it returns the empty table and raises nothing.
\<close>

theorem bulk2_fetch_results_concatenates:
  assumes "\<forall>r \<in> set pages. page_accepted read_csv r
              \<and> \<not> cursor_done (headers_get (headers r) ''Sforce-Locator'')"
    and "page_accepted read_csv last_page"
    and "cursor_done (headers_get (headers last_page) ''Sforce-Locator'')"
  shows "\<exists>table.
           fst (bulk2_fetch_results read_csv max_records (pages @ last_page # rest))
             = Returned table
         \<and> table = (if page_frames read_csv (pages @ [last_page]) = [] then empty_dataframe
                     else concat_frames (page_frames read_csv (pages @ [last_page])))
         \<and> length (rows table)
             = sum_list (map (\<lambda>f. length (rows f)) (page_frames read_csv (pages @ [last_page])))
         \<and> ((\<forall>r \<in> set (pages @ [last_page]). strip (response_text r) = [])
               \<longrightarrow> table = empty_dataframe)"
proof -
  define frames where "frames = page_frames read_csv (pages @ [last_page])"
  define table where
    "table = (if frames = [] then empty_dataframe else concat_frames frames)"
  have "fst (fetch_loop read_csv max_records None [] (pages @ last_page # rest))
      = concat_result ([] @ frames)"
    by (simp only: fetch_loop_run [OF assms] fst_conv frames_def)
  then have c1: "fst (bulk2_fetch_results read_csv max_records (pages @ last_page # rest))
      = Returned table"
    by (simp add: bulk2_fetch_results_def concat_result_returned table_def)
  have c3: "length (rows table) = sum_list (map (\<lambda>f. length (rows f)) frames)"
    by (simp add: table_def empty_dataframe_def length_rows_concat_frames)
  have c4: "(\<forall>r \<in> set (pages @ [last_page]). strip (response_text r) = [])
               \<longrightarrow> table = empty_dataframe"
  proof
    assume "\<forall>r \<in> set (pages @ [last_page]). strip (response_text r) = []"
    then have "frames = []"
      unfolding frames_def by (rule page_frames_blank)
    then show "table = empty_dataframe" by (simp add: table_def)
  qed
  show ?thesis
    unfolding frames_def [symmetric]
    by (rule exI [of _ table], intro conjI) (fact c1, fact table_def, fact c3, fact c4)
qed

theorem bulk2_fetch_results_concatenates_witness:
  "fst (bulk2_fetch_results (\<lambda>s. Inr \<lparr>columns = [''Id''], rows = [[Some s]]\<rparr>) 50000
        [\<lparr>status_code = 200, response_text = ''a'',
          headers = [(''Sforce-Locator'', ''abc'')], json = None\<rparr>,
         \<lparr>status_code = 200, response_text = '' '',
          headers = [(''SFORCE-LOCATOR'', ''abd'')], json = None\<rparr>,
         \<lparr>status_code = 200, response_text = ''b'', headers = [], json = None\<rparr>])
   = Returned \<lparr>columns = [''Id''], rows = [[Some ''a''], [Some ''b'']]\<rparr>
   \<and> fst (bulk2_fetch_results (\<lambda>s. Inr \<lparr>columns = [''Id''], rows = [[Some s]]\<rparr>) 50000
        [\<lparr>status_code = 200, response_text = '''', headers = [], json = None\<rparr>])
   = Returned empty_dataframe"
proof -
  let ?rc = "\<lambda>s. Inr \<lparr>columns = [''Id''], rows = [[Some s]]\<rparr> :: error + dataframe"
  let ?r1 = "\<lparr>status_code = 200, response_text = ''a'',
          headers = [(''Sforce-Locator'', ''abc'')], json = None\<rparr>"
  let ?r2 = "\<lparr>status_code = 200, response_text = '' '',
          headers = [(''SFORCE-LOCATOR'', ''abd'')], json = None\<rparr>"
  let ?r3 = "\<lparr>status_code = 200, response_text = ''b'', headers = [], json = None\<rparr>"
  let ?r0 = "\<lparr>status_code = 200, response_text = '''', headers = [], json = None\<rparr>"
  have h1: "\<forall>r \<in> set [?r1, ?r2]. page_accepted ?rc r
              \<and> \<not> cursor_done (headers_get (headers r) ''Sforce-Locator'')"
    by (simp add: page_accepted_def raise_for_status_def cursor_done_def headers_get_def
        lower_def lower_char_def)
  have h2: "page_accepted ?rc ?r3" "page_accepted ?rc ?r0"
    by (simp_all add: page_accepted_def raise_for_status_def)
  have h3: "cursor_done (headers_get (headers ?r3) ''Sforce-Locator'')"
    "cursor_done (headers_get (headers ?r0) ''Sforce-Locator'')"
    by (simp_all add: cursor_done_def headers_get_def)
  have h0: "\<forall>r \<in> set ([] :: response list). page_accepted ?rc r
              \<and> \<not> cursor_done (headers_get (headers r) ''Sforce-Locator'')"
    by simp
  obtain t1 where
    r1: "fst (bulk2_fetch_results ?rc 50000 ([?r1, ?r2] @ ?r3 # [])) = Returned t1"
    and v1: "t1 = (if page_frames ?rc ([?r1, ?r2] @ [?r3]) = [] then empty_dataframe
                   else concat_frames (page_frames ?rc ([?r1, ?r2] @ [?r3])))"
    using bulk2_fetch_results_concatenates [OF h1 h2(1) h3(1), of 50000 "[]"]
    by (elim exE conjE) (rule that)
  obtain t0 where
    r0: "fst (bulk2_fetch_results ?rc 50000 ([] @ ?r0 # [])) = Returned t0"
    and v0: "(\<forall>r \<in> set ([] @ [?r0]). strip (response_text r) = []) \<longrightarrow> t0 = empty_dataframe"
    using bulk2_fetch_results_concatenates [OF h0 h2(2) h3(2), of 50000 "[]"]
    by (elim exE conjE) (rule that)
  have "page_frames ?rc ([?r1, ?r2] @ [?r3])
      = [\<lparr>columns = [''Id''], rows = [[Some ''a'']]\<rparr>,
         \<lparr>columns = [''Id''], rows = [[Some ''b'']]\<rparr>]"
    by (simp add: page_frames_def strip_def is_space_def)
  then have "t1 = \<lparr>columns = [''Id''], rows = [[Some ''a''], [Some ''b'']]\<rparr>"
    using v1 by (simp add: concat_frames_def unique_def cell_at_def)
  moreover have "t0 = empty_dataframe"
    using v0 by (simp add: strip_def)
  ultimately show ?thesis using r1 r0 by simp
qed

end
